theory Spec2Isabelle
  imports Complex_Main
begin

section \<open>Errors and array primitives\<close>

text \<open>
  The Python exceptions the modelled code can raise. A result is a sum: \<open>Inl\<close> carries
  the exception, \<open>Inr\<close> the returned value.

  Conventions of the embedding: a one-dimensional array is a list, a two-dimensional
  array is the list of its rows (\<open>ravel\<close> is \<open>concat\<close>); Python and NumPy integers are
  \<open>int\<close> (the \<open>int32\<close> and \<open>uint32\<close> arrays are assumed not to overflow, i.e. fewer
  than \<open>2^31\<close> sub-cells), array positions and counters that only count upwards are \<open>nat\<close>, and
  floating-point values are exact reals: rounding is not modelled. An index outside an
  array is the error \<open>IndexError\<close>.
\<close>

datatype error =
  AssertionError | IndexError | ValueError | NotImplementedError | TypingError
  | ZeroDivisionError

type_synonym 'a result = "error + 'a"

definition rbind :: "'a result \<Rightarrow> ('a \<Rightarrow> 'b result) \<Rightarrow> 'b result" where
  "rbind m f = (case m of Inl e \<Rightarrow> Inl e | Inr v \<Rightarrow> f v)"

text \<open>A \<open>for\<close> loop over a list whose body may raise: the first exception ends the loop.\<close>

fun rfold :: "('a \<Rightarrow> 's \<Rightarrow> 's result) \<Rightarrow> 'a list \<Rightarrow> 's \<Rightarrow> 's result" where
  "rfold f [] s = Inr s"
| "rfold f (a # as) s = rbind (f a s) (rfold f as)"

text \<open>
  Python slice bounds: a negative bound counts from the end, and every bound is clipped
  to the array. \<open>py_slice xs lo hi\<close> is \<open>xs[lo:hi]\<close>.
\<close>

definition slice_bound :: "nat \<Rightarrow> int \<Rightarrow> nat" where
  "slice_bound n i = (if i < 0 then nat (max 0 (i + int n)) else min (nat i) n)"

definition py_slice :: "'a list \<Rightarrow> int \<Rightarrow> int \<Rightarrow> 'a list" where
  "py_slice xs lo hi =
     (let a = slice_bound (length xs) lo; b = slice_bound (length xs) hi
      in take (b - a) (drop a xs))"

section \<open>Compressed grid (class Grid)\<close>

text \<open>
  \<open>gmask\<close> is the two-dimensional boolean mask (\<open>True\<close> = excluded cell);
  \<open>mask_flat = gmask.ravel()\<close> and \<open>compressed_size = mask_flat.size - mask_flat.sum()\<close>.
\<close>

definition mask_flat :: "bool list list \<Rightarrow> bool list" where
  "mask_flat gmask = concat gmask"

definition mask_sum :: "bool list \<Rightarrow> nat" where
  "mask_sum m = length (filter (\<lambda>b. b) m)"

definition compressed_size :: "bool list list \<Rightarrow> nat" where
  "compressed_size gmask = length (mask_flat gmask) - mask_sum (mask_flat gmask)"

text \<open>
  \<open>a[m == False]\<close> for a flat array \<open>a\<close> and a boolean array \<open>m\<close>: NumPy raises
  \<open>IndexError\<close> when the two lengths differ.
\<close>

definition select_unmasked :: "'a list \<Rightarrow> bool list \<Rightarrow> 'a list result" where
  "select_unmasked a m =
     (if length a \<noteq> length m then Inl IndexError
      else Inr (map fst (filter (\<lambda>(v, b). \<not> b) (zip a m))))"

text \<open>\<open>Grid.compress\<close>: \<open>array.ravel()[self.mask_flat == False]\<close>.\<close>

definition compress :: "bool list list \<Rightarrow> 'a list list \<Rightarrow> 'a list result" where
  "compress gmask array = select_unmasked (concat array) (mask_flat gmask)"

text \<open>
  \<open>outmap[m == False] = array\<close>: the values of \<open>array\<close> go, in order, to the positions
  where \<open>m\<close> is \<open>False\<close>. NumPy broadcasts an array of one element and raises
  \<open>ValueError\<close> for any other length that is not the number of such positions.
\<close>

fun scatter :: "'a list \<Rightarrow> bool list \<Rightarrow> 'a list \<Rightarrow> 'a list" where
  "scatter [] m vs = []"
| "scatter (out # outs) [] vs = out # outs"
| "scatter (out # outs) (True # m) vs = out # scatter outs m vs"
| "scatter (out # outs) (False # m) [] = out # outs"
| "scatter (out # outs) (False # m) (v # vs) = v # scatter outs m vs"

definition assign_unmasked :: "'a list \<Rightarrow> bool list \<Rightarrow> 'a list \<Rightarrow> 'a list result" where
  "assign_unmasked outmap m array =
     (if length outmap \<noteq> length m then Inl IndexError
      else if length array = length m - mask_sum m then Inr (scatter outmap m array)
      else if length array = 1
        then Inr (scatter outmap m (replicate (length m - mask_sum m) (hd array)))
      else Inl ValueError)"

text \<open>
  \<open>flat.reshape(gmask.shape)\<close>: the flat array cut into rows as long as the rows of the
  mask.
\<close>

fun reshape_like :: "'b list list \<Rightarrow> 'a list \<Rightarrow> 'a list list" where
  "reshape_like [] flat = []"
| "reshape_like (row # rows) flat =
     take (length row) flat # reshape_like rows (drop (length row) flat)"

text \<open>
  \<open>Grid.decompress\<close>. \<open>fillvalue = None\<close> selects the default of the array's dtype
  (\<open>np.nan\<close> for a floating dtype, \<open>0\<close> otherwise), which is the parameter \<open>dtype_default\<close>
  here. \<open>self.full(fillvalue, dtype=array.dtype)\<close> is an array of the shape of the mask, made
  flat by \<open>reshape(self.mask_flat.size)\<close>.
\<close>

definition decompress ::
  "bool list list \<Rightarrow> 'a \<Rightarrow> 'a list \<Rightarrow> 'a option \<Rightarrow> 'a list list result" where
  "decompress gmask dtype_default array fillvalue =
     (let fill = (case fillvalue of None \<Rightarrow> dtype_default | Some v \<Rightarrow> v);
          outmap = replicate (length (mask_flat gmask)) fill
      in rbind (assign_unmasked outmap (mask_flat gmask) array)
           (\<lambda>outmap. Inr (reshape_like gmask outmap)))"

section \<open>Grid--HRU converter (Data.to_HRU_numba, Data.to_grid_numba)\<close>

text \<open>
  \<open>xs[lo:hi] = vs\<close> for an array \<open>vs\<close>: the lengths must agree, but for an array of one
  element, which NumPy broadcasts. \<open>xs[lo:hi] = v\<close> for a scalar fills the slice.
\<close>

definition slice_fill :: "'a list \<Rightarrow> int \<Rightarrow> int \<Rightarrow> 'a \<Rightarrow> 'a list" where
  "slice_fill xs lo hi v =
     (let a = slice_bound (length xs) lo; b = slice_bound (length xs) hi
      in take a xs @ replicate (b - a) v @ drop (a + (b - a)) xs)"

definition slice_store :: "'a list \<Rightarrow> int \<Rightarrow> int \<Rightarrow> 'a list \<Rightarrow> 'a list result" where
  "slice_store xs lo hi vs =
     (let a = slice_bound (length xs) lo; b = slice_bound (length xs) hi
      in if length vs = b - a then Inr (take a xs @ vs @ drop (a + (b - a)) xs)
         else if length vs = 1 then Inr (slice_fill xs lo hi (hd vs))
         else Inl ValueError)"

text \<open>
  The two loop bodies of \<open>to_HRU_numba\<close>, for the cell \<open>(data[i], var_to_HRU[i])\<close>; the
  state is \<open>(output_data, prev_index)\<close>. The function is compiled with Numba's default
  error model, in which a scalar division by zero raises \<open>ZeroDivisionError\<close>.
\<close>

definition hru_copy_step :: "real \<times> int \<Rightarrow> real list \<times> int \<Rightarrow> (real list \<times> int) result" where
  "hru_copy_step cell sp =
     (case (cell, sp) of ((d, cell_index), (output_data, prev_index)) \<Rightarrow>
        Inr (slice_fill output_data prev_index cell_index d, cell_index))"

definition hru_mean_step ::
  "real list \<Rightarrow> real \<times> int \<Rightarrow> real list \<times> int \<Rightarrow> (real list \<times> int) result" where
  "hru_mean_step land_use_ratio cell sp =
     (case (cell, sp) of ((d, cell_index), (output_data, prev_index)) \<Rightarrow>
        (let cell_sizes = py_slice land_use_ratio prev_index cell_index in
         if sum_list cell_sizes = 0 then Inl ZeroDivisionError
         else rbind (slice_store output_data prev_index cell_index
                       (map (\<lambda>r. d / sum_list cell_sizes * r) cell_sizes))
                (\<lambda>output_data. Inr (output_data, cell_index))))"

text \<open>
  \<open>Data.to_HRU_numba\<close>. \<open>fn\<close> is \<open>None\<close> or a string. \<open>var_to_HRU[-1]\<close> raises on an
  empty array.
\<close>

definition to_HRU_numba ::
  "real list \<Rightarrow> int list \<Rightarrow> real list \<Rightarrow> string option \<Rightarrow> real list result" where
  "to_HRU_numba data var_to_HRU land_use_ratio fn =
     (if var_to_HRU = [] then Inl IndexError
      else if last var_to_HRU \<noteq> int (length land_use_ratio) then Inl AssertionError
      else if length data \<noteq> length var_to_HRU then Inl AssertionError
      else
        (let output_data = replicate (length land_use_ratio) 0 in
         case fn of
           None \<Rightarrow>
             rbind (rfold hru_copy_step (zip data var_to_HRU) (output_data, 0))
               (\<lambda>sp. Inr (fst sp))
         | Some name \<Rightarrow>
             if name = ''mean''
             then rbind (rfold (hru_mean_step land_use_ratio) (zip data var_to_HRU)
                           (output_data, 0)) (\<lambda>sp. Inr (fst sp))
             else Inl NotImplementedError))"

text \<open>
  \<open>values * weights\<close> for two one-dimensional arrays, with NumPy's broadcasting of an
  array of one element.
\<close>

definition array_mul :: "real list \<Rightarrow> real list \<Rightarrow> real list result" where
  "array_mul values weights =
     (if length values = length weights then Inr (map2 (*) values weights)
      else if length values = 1 then Inr (map (\<lambda>w. hd values * w) weights)
      else if length weights = 1 then Inr (map (\<lambda>v. v * hd weights) values)
      else Inl ValueError)"

text \<open>
  The reduction of one cell in \<open>to_grid_numba\<close>. \<open>np.max\<close> and \<open>np.min\<close> raise
  \<open>ValueError\<close> on an empty array; over the reals there is no NaN, so \<open>nansum\<close> is the
  sum.
\<close>

definition reduce_cell :: "string \<Rightarrow> real list \<Rightarrow> real list \<Rightarrow> real result" where
  "reduce_cell fn values weights =
     (if fn = ''mean''
      then rbind (array_mul values weights) (\<lambda>vw.
           if sum_list weights = 0 then Inl ZeroDivisionError
           else Inr (sum_list vw / sum_list weights))
      else if fn = ''sum'' then Inr (sum_list values)
      else if fn = ''nansum'' then Inr (sum_list values)
      else if fn = ''max''
        then (if values = [] then Inl ValueError else Inr (Max (set values)))
      else if fn = ''min''
        then (if values = [] then Inl ValueError else Inr (Min (set values)))
      else Inl NotImplementedError)"

text \<open>
  The loop of \<open>to_grid_numba\<close> over the cells: \<open>output_data[i]\<close> is written for
  \<open>i = 0, 1, ...\<close> in turn, so the output is built front to back.
\<close>

fun grid_loop :: "string \<Rightarrow> real list \<Rightarrow> real list \<Rightarrow> int list \<Rightarrow> int \<Rightarrow> real list result" where
  "grid_loop fn data land_use_ratio [] prev_index = Inr []"
| "grid_loop fn data land_use_ratio (cell_index # rest) prev_index =
     rbind (reduce_cell fn (py_slice data prev_index cell_index)
              (py_slice land_use_ratio prev_index cell_index)) (\<lambda>r.
     rbind (grid_loop fn data land_use_ratio rest cell_index) (\<lambda>rs. Inr (r # rs)))"

definition to_grid_numba ::
  "real list \<Rightarrow> int list \<Rightarrow> real list \<Rightarrow> string \<Rightarrow> real list result" where
  "to_grid_numba data var_to_HRU land_use_ratio fn =
     (if var_to_HRU = [] then Inl IndexError
      else if last var_to_HRU \<noteq> int (length land_use_ratio) then Inl AssertionError
      else grid_loop fn data land_use_ratio var_to_HRU 0)"

section \<open>HRU builder (HRUs.create_HRUs_numba)\<close>

text \<open>
  The index structures of the class \<open>HRUs\<close>, as \<open>create_HRUs_numba\<close> returns them and
  \<open>HRUs.__init__\<close> stores them. \<open>unmerged_HRU_indices\<close> is a \<open>uint32\<close> array: its
  entries are integers from \<open>0\<close> to \<open>2^32 - 1\<close>.
\<close>

record HRUs =
  land_use_type :: "int list"
  land_use_ratio :: "real list"
  land_owners :: "int list"
  HRU_to_grid :: "int list"
  var_to_HRU :: "int list"
  var_to_HRU_uncompressed :: "int list"
  unmerged_HRU_indices :: "int list"

text \<open>
  The local variables of \<open>create_HRUs_numba\<close>. The four arrays that share a name with a
  field of \<open>HRUs\<close>, and the counters \<open>j\<close> and \<open>l\<close>, carry the suffix \<open>_b\<close>.
\<close>

record builder =
  var_to_HRU_b :: "int list"
  var_to_HRU_uncompressed_b :: "int list"
  HRU_to_grid_b :: "int list"
  land_use_array :: "int list"
  land_use_size :: "int list"
  land_use_owner :: "int list"
  unmerged_HRU_indices_b :: "int list"
  j_b :: nat
  var_cell_count_compressed :: nat
  l_b :: nat
  var_cell_count_uncompressed :: nat

text \<open>
  Opening a unit at slot \<open>j\<close> (source lines 248--257 and 276--284): both asserts that the
  slot is unused, the land-use code, size 1, the owner (first loop only), the grid cell,
  and \<open>j += 1\<close>.
\<close>

definition open_unit :: "int \<Rightarrow> int option \<Rightarrow> builder \<Rightarrow> builder result" where
  "open_unit land_use owner st =
     (let j = j_b st in
      if \<not> j < length (land_use_array st) then Inl IndexError
      else if land_use_array st ! j \<noteq> - 1 then Inl AssertionError
      else if \<not> j < length (land_use_size st) then Inl IndexError
      else if land_use_size st ! j \<noteq> - 1 then Inl AssertionError
      else if owner \<noteq> None \<and> \<not> j < length (land_use_owner st) then Inl IndexError
      else if \<not> j < length (HRU_to_grid_b st) then Inl IndexError
      else Inr (st\<lparr>land_use_array := (land_use_array st)[j := land_use],
                  land_use_size := (land_use_size st)[j := 1],
                  land_use_owner :=
                    (case owner of None \<Rightarrow> land_use_owner st
                     | Some farm \<Rightarrow> (land_use_owner st)[j := farm]),
                  HRU_to_grid_b := (HRU_to_grid_b st)[j := int (var_cell_count_compressed st)],
                  j_b := j + 1\<rparr>))"

text \<open>
  \<open>land_use_size[j-1] += 1\<close>. For \<open>j = 0\<close> the index \<open>-1\<close> is Python's last element.
\<close>

definition grow_unit :: "builder \<Rightarrow> builder result" where
  "grow_unit st =
     (let n = length (land_use_size st);
          k = (if j_b st = 0 then n - 1 else j_b st - 1)
      in if \<not> k < n then Inl IndexError
         else Inr (st\<lparr>land_use_size := (land_use_size st)[k := land_use_size st ! k + 1]\<rparr>))"

text \<open>
  \<open>unmerged_HRU_indices[sort_idx[i] + var_cell_count_compressed * (scaling ** 2)] = j - 1\<close>
  and \<open>l += 1\<close>. The array is \<open>uint32\<close>, in which \<open>-1\<close> is \<open>2^32 - 1\<close>.
\<close>

definition assign_subcell :: "nat \<Rightarrow> nat \<Rightarrow> builder \<Rightarrow> builder result" where
  "assign_subcell scaling si st =
     (let k = si + var_cell_count_compressed st * scaling ^ 2
      in if \<not> k < length (unmerged_HRU_indices_b st) then Inl IndexError
         else Inr (st\<lparr>unmerged_HRU_indices_b :=
                      (unmerged_HRU_indices_b st)
                        [k := (if j_b st = 0 then 4294967295 else int (j_b st) - 1)],
                    l_b := l_b st + 1\<rparr>))"

text \<open>
  The body of the first inner loop (owned sub-cells), for the sub-cell
  \<open>(farm, land_use, sort_idx[i])\<close>; the loop variable \<open>prev_farm\<close> travels with the state.
\<close>

definition farm_step ::
  "nat \<Rightarrow> int \<times> int \<times> nat \<Rightarrow> builder \<times> int \<Rightarrow> (builder \<times> int) result" where
  "farm_step scaling item sp =
     (case (item, sp) of ((farm, land_use, si), (st, prev_farm)) \<Rightarrow>
        if farm = - 1 then Inr (st, prev_farm)
        else if farm \<noteq> prev_farm
          then rbind (open_unit land_use (Some farm) st) (\<lambda>st.
               rbind (assign_subcell scaling si st) (\<lambda>st. Inr (st, farm)))
          else rbind (grow_unit st) (\<lambda>st.
               rbind (assign_subcell scaling si st) (\<lambda>st. Inr (st, prev_farm))))"

text \<open>The body of the second inner loop (unowned sub-cells), with \<open>prev_land_use\<close>.\<close>

definition land_use_step ::
  "nat \<Rightarrow> int \<times> int \<times> nat \<Rightarrow> builder \<times> int \<Rightarrow> (builder \<times> int) result" where
  "land_use_step scaling item sp =
     (case (item, sp) of ((farm, land_use, si), (st, prev_land_use)) \<Rightarrow>
        if farm \<noteq> - 1 then Inr (st, prev_land_use)
        else if land_use \<noteq> prev_land_use
          then rbind (open_unit land_use None st) (\<lambda>st.
               rbind (assign_subcell scaling si st) (\<lambda>st. Inr (st, land_use)))
          else rbind (grow_unit st) (\<lambda>st.
               rbind (assign_subcell scaling si st) (\<lambda>st. Inr (st, prev_land_use))))"

text \<open>
  \<open>a[y * scaling : (y + 1) * scaling, x * scaling : (x + 1) * scaling].ravel()\<close>; slices
  are clipped to the array, as in NumPy.
\<close>

definition cell_block :: "'a list list \<Rightarrow> nat \<Rightarrow> nat \<Rightarrow> nat \<Rightarrow> 'a list" where
  "cell_block a scaling y x =
     concat (map (\<lambda>row. take scaling (drop (x * scaling) row))
                 (take scaling (drop (y * scaling) a)))"

text \<open>
  \<open>np.argsort\<close>: a permutation of the positions that sorts the array. Equal keys keep
  their order here; NumPy's default sort promises no order among equal keys, and the
  general results below use only that \<open>argsort\<close> returns every position once.
\<close>

definition argsort :: "int list \<Rightarrow> nat list" where
  "argsort a = sort_key (\<lambda>i. a ! i) [0..<length a]"

text \<open>\<open>a[idx]\<close> for an array of positions.\<close>

definition fancy :: "'a list \<Rightarrow> nat list \<Rightarrow> 'a list result" where
  "fancy a idx =
     (if \<forall>i \<in> set idx. i < length a then Inr (map (\<lambda>i. a ! i) idx) else Inl IndexError)"

definition land_use_domain :: "int \<Rightarrow> bool" where
  "land_use_domain c = (c = 0 \<or> c = 1 \<or> c = 4 \<or> c = 5)"

text \<open>
  Source lines 237--239 and 264--266: \<open>sort_idx = np.argsort(key)\<close>, then both cell
  arrays taken at \<open>sort_idx\<close>. The inner loops read the three arrays side by side.
\<close>

definition sorted_items ::
  "int list \<Rightarrow> int list \<Rightarrow> int list \<Rightarrow> (int \<times> int \<times> nat) list result" where
  "sorted_items cell_farms cell_land_use_classes key =
     (let sort_idx = argsort key in
      rbind (fancy cell_farms sort_idx) (\<lambda>cell_farms_sorted.
      rbind (fancy cell_land_use_classes sort_idx) (\<lambda>cell_land_use_classes_sorted.
      Inr (zip cell_farms_sorted (zip cell_land_use_classes_sorted sort_idx)))))"

text \<open>
  Source lines 291--292: \<open>var_to_HRU[var_cell_count_compressed] = j\<close> and the increment
  of the counter.
\<close>

definition close_cell :: "builder \<Rightarrow> builder result" where
  "close_cell st =
     (let c = var_cell_count_compressed st in
      if \<not> c < length (var_to_HRU_b st) then Inl IndexError
      else Inr (st\<lparr>var_to_HRU_b := (var_to_HRU_b st)[c := int (j_b st)],
                  var_cell_count_compressed := c + 1\<rparr>))"

text \<open>The body of \<open>if not is_masked\<close> (source lines 233--292).\<close>

definition process_cell ::
  "int list list \<Rightarrow> int list list \<Rightarrow> nat \<Rightarrow> nat \<Rightarrow> nat \<Rightarrow> builder \<Rightarrow> builder result" where
  "process_cell farms land_use_classes scaling y x st =
     (let cell_farms = cell_block farms scaling y x;
          cell_land_use_classes = cell_block land_use_classes scaling y x
      in if \<not> (\<forall>c \<in> set cell_land_use_classes. land_use_domain c) then Inl AssertionError
         else
           rbind (sorted_items cell_farms cell_land_use_classes cell_farms) (\<lambda>items.
           rbind (rfold (farm_step scaling) items (st, - 1)) (\<lambda>sp.
           rbind (sorted_items cell_farms cell_land_use_classes cell_land_use_classes)
             (\<lambda>items.
           if cell_land_use_classes = [] then Inl IndexError
           else if - 1 = cell_land_use_classes ! 0 then Inl AssertionError
           else rbind (rfold (land_use_step scaling) items (fst sp, - 1)) (\<lambda>sp.
                close_cell (fst sp))))))"

text \<open>The body of the loop over \<open>x\<close> (source lines 231--294).\<close>

definition cell_step ::
  "int list list \<Rightarrow> int list list \<Rightarrow> bool list list \<Rightarrow> nat \<Rightarrow> nat \<Rightarrow> nat \<Rightarrow>
   builder \<Rightarrow> builder result" where
  "cell_step farms land_use_classes gmask scaling y x st =
     (if \<not> (y < length gmask \<and> x < length (gmask ! y)) then Inl IndexError
      else
        rbind (if \<not> gmask ! y ! x then process_cell farms land_use_classes scaling y x st
               else Inr st) (\<lambda>st.
          (let u = var_cell_count_uncompressed st in
           if \<not> u < length (var_to_HRU_uncompressed_b st) then Inl IndexError
           else Inr (st\<lparr>var_to_HRU_uncompressed_b :=
                          (var_to_HRU_uncompressed_b st)[u := int (j_b st)],
                       var_cell_count_uncompressed := u + 1\<rparr>))))"

text \<open>\<open>mask.shape\<close>: the number of rows and the length of a row.\<close>

definition shape :: "'a list list \<Rightarrow> nat \<times> nat" where
  "shape a = (length a, if a = [] then 0 else length (hd a))"

definition create_HRUs_numba ::
  "int list list \<Rightarrow> int list list \<Rightarrow> bool list list \<Rightarrow> nat \<Rightarrow> HRUs result" where
  "create_HRUs_numba farms land_use_classes gmask scaling =
     (let farms_size = length (concat farms); mask_size = length (concat gmask) in
      if farms_size \<noteq> mask_size * scaling * scaling then Inl AssertionError
      else if farms_size \<noteq> length (concat land_use_classes) then Inl AssertionError
      else
        (let (ysize, xsize) = shape gmask;
             n_nonmasked_cells = mask_size - mask_sum (concat gmask);
             st = \<lparr>var_to_HRU_b = replicate n_nonmasked_cells (- 1),
                   var_to_HRU_uncompressed_b = replicate mask_size (- 1),
                   HRU_to_grid_b = replicate farms_size (- 1),
                   land_use_array = replicate farms_size (- 1),
                   land_use_size = replicate farms_size (- 1),
                   land_use_owner = replicate farms_size (- 1),
                   unmerged_HRU_indices_b = replicate farms_size 4294967295,
                   j_b = 0, var_cell_count_compressed = 0, l_b = 0,
                   var_cell_count_uncompressed = 0\<rparr>
         in rbind (rfold (\<lambda>y. rfold (cell_step farms land_use_classes gmask scaling y)
                                  [0..<xsize]) [0..<ysize] st) (\<lambda>st.
              (let sizes = take (j_b st) (land_use_size st) in
               if sum_list sizes \<noteq> int (n_nonmasked_cells * scaling ^ 2)
               then Inl AssertionError
               else Inr \<lparr>land_use_type = take (j_b st) (land_use_array st),
                         land_use_ratio = map (\<lambda>z. real_of_int z / real (scaling ^ 2)) sizes,
                         land_owners = take (j_b st) (land_use_owner st),
                         HRU_to_grid = take (j_b st) (HRU_to_grid_b st),
                         var_to_HRU = var_to_HRU_b st,
                         var_to_HRU_uncompressed = var_to_HRU_uncompressed_b st,
                         unmerged_HRU_indices =
                           take (var_cell_count_compressed st * scaling ^ 2)
                                (unmerged_HRU_indices_b st)\<rparr>))))"

section \<open>Converter wrappers (Data.to_HRU, Data.to_grid)\<close>

text \<open>
  The values the Python wrappers \<open>to_HRU\<close> and \<open>to_grid\<close> receive as \<open>data\<close> and
  \<open>HRU_data\<close>: a Python float, a Python int, a Python list, or a NumPy array. The wrappers
  are modelled for a call with \<open>data\<close> (or \<open>HRU_data\<close>) given and \<open>varname\<close> left out, on
  the CPU; the \<open>varname\<close> form reads and writes attributes of the grid and HRU objects.
\<close>

datatype pyvalue = PyFloat real | PyInt int | PyList "real list" | NDArray "real list"

definition to_HRU :: "HRUs \<Rightarrow> pyvalue \<Rightarrow> string option \<Rightarrow> pyvalue result" where
  "to_HRU hru data fn =
     (case data of
        PyList xs \<Rightarrow> Inl AssertionError
      | PyFloat v \<Rightarrow> Inr data
      | PyInt v \<Rightarrow> Inr data
      | NDArray a \<Rightarrow>
          rbind (to_HRU_numba a (var_to_HRU hru) (land_use_ratio hru) fn)
            (\<lambda>outdata. Inr (NDArray outdata)))"

text \<open>
  \<open>to_grid\<close> tests \<open>isinstance(HRU_data, float)\<close> only: a Python int goes on to
  \<open>to_grid_numba\<close>, which reads \<open>data.dtype\<close> and slices \<open>data\<close>; Numba has no such
  operations for an integer and raises a typing error.
\<close>

definition to_grid :: "HRUs \<Rightarrow> pyvalue \<Rightarrow> string option \<Rightarrow> pyvalue result" where
  "to_grid hru HRU_data fn =
     (case fn of
        None \<Rightarrow> Inl AssertionError
      | Some name \<Rightarrow>
          (case HRU_data of
             PyList xs \<Rightarrow> Inl AssertionError
           | PyFloat v \<Rightarrow> Inr HRU_data
           | PyInt v \<Rightarrow> Inl TypingError
           | NDArray a \<Rightarrow>
               rbind (to_grid_numba a (var_to_HRU hru) (land_use_ratio hru) name)
                 (\<lambda>outdata. Inr (NDArray outdata))))"

section \<open>HRU splitter (Data.split_HRU)\<close>

text \<open>
  \<open>split_HRU_data\<close> for a one-dimensional array: \<open>np.insert(a, i, a[i] * (att or 1))\<close>
  puts the new entry before position \<open>i\<close>; with \<open>att\<close> given, the entry after it is then
  scaled by \<open>1 - att\<close>. The arrays are NumPy arrays and CuPy is installed, so that
  \<open>isinstance(a, cp.ndarray)\<close> is false and the function works on \<open>a\<close> itself. (Where CuPy
  cannot be imported the module binds \<open>cp\<close> to \<open>np\<close>, the test is true of every NumPy array
  and \<open>a.get()\<close> raises; that installation is not modelled.)
\<close>

definition split_HRU_data :: "'a::linordered_idom list \<Rightarrow> nat \<Rightarrow> 'a option \<Rightarrow> 'a list result" where
  "split_HRU_data a i att =
     (case att of
        None \<Rightarrow>
          if \<not> i < length a then Inl IndexError
          else Inr (take i a @ [a ! i * 1] @ drop i a)
      | Some t \<Rightarrow>
          if \<not> (0 < t \<and> t < 1) then Inl AssertionError
          else if \<not> i < length a then Inl IndexError
          else (let a' = take i a @ [a ! i * t] @ drop i a
                in Inr (a'[i + 1 := (1 - t) * a' ! (i + 1)])))"

text \<open>
  \<open>split_HRU\<close>, up to the last of the index structures. The per-unit state arrays of the
  hydrological model, which the same function passes through \<open>split_HRU_data\<close> one by
  one, and the field indices of the farmer agents are outside this model.
  \<open>int(subcell_indices.size * .50)\<close> is the size halved and rounded down. The sub-cells
  are selected with \<open>unmerged_HRU_indices == 0\<close>, as line 605 of the source has it; every
  later statement uses \<open>index\<close>.
\<close>

definition split_HRU :: "HRUs \<Rightarrow> nat \<Rightarrow> HRUs result" where
  "split_HRU hru index =
     (let um = unmerged_HRU_indices hru;
          subcell_indices = filter (\<lambda>k. um ! k = 0) [0..<length um];
          split_loc = length subcell_indices div 2
      in if \<not> (split_loc > 0 \<and> split_loc < length subcell_indices) then Inl AssertionError
         else
           (let att = real split_loc / real (length subcell_indices);
                um1 = map (\<lambda>v. if v > int index then v + 1 else v) um;
                moved = drop split_loc subcell_indices;
                um2 = map (\<lambda>k. if k \<in> set moved then um1 ! k + 1 else um1 ! k)
                        [0..<length um1]
            in rbind (split_HRU_data (HRU_to_grid hru) index None) (\<lambda>h2g.
               (let v = var_to_HRU hru;
                    a = slice_bound (length v) (h2g ! index);
                    v' = take a v @ map (\<lambda>e. e + 1) (drop a v)
                in rbind (split_HRU_data (land_owners hru) index None) (\<lambda>owners.
                   rbind (split_HRU_data (land_use_type hru) index None) (\<lambda>lut.
                   rbind (split_HRU_data (land_use_ratio hru) index (Some att)) (\<lambda>ratio.
                   Inr (hru\<lparr>unmerged_HRU_indices := um2, HRU_to_grid := h2g,
                            var_to_HRU := v', land_owners := owners,
                            land_use_type := lut, land_use_ratio := ratio\<rparr>))))))))"

section \<open>Invariants of the index structures\<close>

text \<open>
  The unit range of grid cell \<open>i\<close> is \<open>[cell_start v i, v[i])\<close>, and \<open>cell_ratio_sum\<close> is the
  sum of \<open>land_use_ratio\<close> over it, read with the slice \<open>land_use_ratio[prev:v[i]]\<close>.
\<close>

definition cell_start :: "int list \<Rightarrow> nat \<Rightarrow> int" where
  "cell_start v i = (if i = 0 then 0 else v ! (i - 1))"

definition cell_ratio_sum :: "HRUs \<Rightarrow> nat \<Rightarrow> real" where
  "cell_ratio_sum hru i =
     sum_list (py_slice (land_use_ratio hru) (cell_start (var_to_HRU hru) i) (var_to_HRU hru ! i))"

text \<open>
  Two predicates for the proofs about the converter. \<open>fills_cell step fn ratio Q\<close>: on
  a cell with a non-empty unit range that satisfies \<open>Q\<close>, the loop body \<open>step\<close> of
  \<open>to_HRU_numba\<close> writes only the cell's own range, and the reduction \<open>fn\<close> of
  \<open>to_grid_numba\<close> over that range gives back the cell's value. \<open>cells_ok Q prev v\<close>:
  every cell of \<open>v\<close>, walked from \<open>prev\<close>, satisfies \<open>Q\<close>.
\<close>

definition fills_cell ::
  "(real \<times> int \<Rightarrow> real list \<times> int \<Rightarrow> (real list \<times> int) result) \<Rightarrow> string \<Rightarrow> real list \<Rightarrow>
   (int \<Rightarrow> int \<Rightarrow> bool) \<Rightarrow> bool" where
  "fills_cell step fn ratio Q =
     (\<forall>d c out prev. 0 \<le> prev \<and> prev < c \<and> c \<le> int (length out) \<and> length out = length ratio
          \<and> Q prev c \<longrightarrow>
        (\<exists>out1. step (d, c) (out, prev) = Inr (out1, c) \<and> length out1 = length out \<and>
           take (nat prev) out1 = take (nat prev) out \<and>
           reduce_cell fn (py_slice out1 prev c) (py_slice ratio prev c) = Inr d))"

fun cells_ok :: "(int \<Rightarrow> int \<Rightarrow> bool) \<Rightarrow> int \<Rightarrow> int list \<Rightarrow> bool" where
  "cells_ok Q prev [] = True"
| "cells_ok Q prev (c # cs) = (Q prev c \<and> cells_ok Q c cs)"

text \<open>
  The link between \<open>HRU_to_grid\<close> and \<open>var_to_HRU\<close> among the invariants of the data
  model: the per-unit arrays have one length, \<open>var_to_HRU\<close> is non-negative and
  non-decreasing with the number of units as its last entry, and every unit lies in the
  unit range of the grid cell that \<open>HRU_to_grid\<close> names for it.
\<close>

definition units_in_cells :: "HRUs \<Rightarrow> bool" where
  "units_in_cells hru =
     (let v = var_to_HRU hru; h = HRU_to_grid hru; n = length (land_use_ratio hru) in
      length h = n \<and> length (land_use_type hru) = n \<and>
      v \<noteq> [] \<and> sorted (0 # v) \<and> last v = int n \<and>
      (\<forall>u \<in> set [0..<n]. 0 \<le> h ! u \<and> h ! u < int (length v) \<and>
          cell_start v (nat (h ! u)) \<le> int u \<and> int u < v ! nat (h ! u)))"

text \<open>
  An array after \<open>split_HRU_data\<close> at position \<open>i\<close>: the entries \<open>p\<close> and \<open>q\<close> stand where
  the entry \<open>a[i]\<close> stood.
\<close>

definition inserted :: "'a list \<Rightarrow> nat \<Rightarrow> 'a \<Rightarrow> 'a \<Rightarrow> 'a list" where
  "inserted a i p q = take i a @ [p, q] @ drop (Suc i) a"

section \<open>Invariants of the builder\<close>

text \<open>
  The two inner loops of the builder have one shape: a sub-cell is skipped, or it opens a
  unit (its key differs from the previous one), or it joins the last unit. \<open>gen_step\<close> is
  that shape, with the test for an active sub-cell, the key and the owner as parameters;
  \<open>farm_step\<close> and \<open>land_use_step\<close> are its two instances.
\<close>

definition gen_step ::
  "nat \<Rightarrow> (int \<times> int \<times> nat \<Rightarrow> bool) \<Rightarrow> (int \<times> int \<times> nat \<Rightarrow> int) \<Rightarrow>
   (int \<times> int \<times> nat \<Rightarrow> int option) \<Rightarrow> int \<times> int \<times> nat \<Rightarrow> builder \<times> int \<Rightarrow>
   (builder \<times> int) result" where
  "gen_step scaling active key owner item sp =
     (if \<not> active item then Inr sp
      else if key item \<noteq> snd sp
        then rbind (open_unit (fst (snd item)) (owner item) (fst sp)) (\<lambda>st.
             rbind (assign_subcell scaling (snd (snd item)) st) (\<lambda>st. Inr (st, key item)))
        else rbind (grow_unit (fst sp)) (\<lambda>st.
             rbind (assign_subcell scaling (snd (snd item)) st) (\<lambda>st. Inr (st, snd sp))))"

text \<open>
  The state \<open>st\<close> inside the processing of one grid cell that began in the state \<open>st0\<close>:
  the arrays keep their length \<open>N\<close>; \<open>j\<close> and \<open>l\<close> only grow, \<open>j\<close> by no more than \<open>l\<close>;
  the slots from \<open>j\<close> on are unused; the units below the cell's first unit are
  untouched; the sizes of the cell's units add up to the number of sub-cells assigned
  since \<open>st0\<close>; the cell's units are linked to the cell; and \<open>unmerged_HRU_indices\<close> is
  untouched outside the cell's block of \<open>s2\<close> sub-cells.
\<close>

definition cell_inv :: "nat \<Rightarrow> nat \<Rightarrow> builder \<Rightarrow> builder \<Rightarrow> bool" where
  "cell_inv s2 N st0 st \<longleftrightarrow>
     var_to_HRU_b st = var_to_HRU_b st0 \<and>
     var_to_HRU_uncompressed_b st = var_to_HRU_uncompressed_b st0 \<and>
     var_cell_count_compressed st = var_cell_count_compressed st0 \<and>
     var_cell_count_uncompressed st = var_cell_count_uncompressed st0 \<and>
     length (HRU_to_grid_b st) = N \<and> length (land_use_array st) = N \<and>
     length (land_use_size st) = N \<and> length (land_use_owner st) = N \<and>
     length (unmerged_HRU_indices_b st) = N \<and>
     j_b st0 \<le> j_b st \<and> l_b st0 \<le> l_b st \<and> j_b st + l_b st0 \<le> l_b st + j_b st0 \<and>
     (\<forall>i. j_b st \<le> i \<and> i < N \<longrightarrow> land_use_array st ! i = - 1 \<and> land_use_size st ! i = - 1) \<and>
     (\<forall>i < j_b st0. land_use_size st ! i = land_use_size st0 ! i \<and>
                    HRU_to_grid_b st ! i = HRU_to_grid_b st0 ! i) \<and>
     (\<Sum>i = j_b st0..<j_b st. land_use_size st ! i) = int (l_b st) - int (l_b st0) \<and>
     (\<forall>u. j_b st0 \<le> u \<and> u < j_b st \<longrightarrow>
          HRU_to_grid_b st ! u = int (var_cell_count_compressed st0)) \<and>
     (\<forall>k. k < N \<and> \<not> (var_cell_count_compressed st0 * s2 \<le> k \<and>
                        k < var_cell_count_compressed st0 * s2 + s2) \<longrightarrow>
          unmerged_HRU_indices_b st ! k = unmerged_HRU_indices_b st0 ! k)"

text \<open>
  The sub-cell slot \<open>k\<close> holds a unit of the cell being processed.
\<close>

definition slot_done :: "builder \<Rightarrow> builder \<Rightarrow> nat \<Rightarrow> bool" where
  "slot_done st0 st k \<longleftrightarrow>
     int (j_b st0) \<le> unmerged_HRU_indices_b st ! k \<and> unmerged_HRU_indices_b st ! k < int (j_b st)"

text \<open>
  A finished grid cell \<open>i\<close>: its unit range is non-empty and lies below \<open>j\<close>, the sizes
  of its units add up to \<open>s2\<close>, its units are linked to it, and every sub-cell of its
  block holds one of its units.
\<close>

definition cell_built :: "nat \<Rightarrow> builder \<Rightarrow> nat \<Rightarrow> bool" where
  "cell_built s2 st i \<longleftrightarrow>
     0 \<le> cell_start (var_to_HRU_b st) i \<and>
     cell_start (var_to_HRU_b st) i < var_to_HRU_b st ! i \<and>
     var_to_HRU_b st ! i \<le> int (j_b st) \<and>
     (\<Sum>u = nat (cell_start (var_to_HRU_b st) i)..<nat (var_to_HRU_b st ! i).
         land_use_size st ! u) = int s2 \<and>
     (\<forall>u. nat (cell_start (var_to_HRU_b st) i) \<le> u \<and> u < nat (var_to_HRU_b st ! i) \<longrightarrow>
          HRU_to_grid_b st ! u = int i) \<and>
     (\<forall>k. i * s2 \<le> k \<and> k < i * s2 + s2 \<longrightarrow>
          cell_start (var_to_HRU_b st) i \<le> unmerged_HRU_indices_b st ! k \<and>
          unmerged_HRU_indices_b st ! k < var_to_HRU_b st ! i)"

text \<open>
  The state between two grid cells: \<open>var_cell_count_compressed\<close> cells are finished,
  \<open>l\<close> is the number of their sub-cells, the sizes of all units add up to \<open>l\<close>, and the
  next cell's range starts at \<open>j\<close>.
\<close>

definition built :: "nat \<Rightarrow> nat \<Rightarrow> builder \<Rightarrow> bool" where
  "built s2 N st \<longleftrightarrow>
     length (HRU_to_grid_b st) = N \<and> length (land_use_array st) = N \<and>
     length (land_use_size st) = N \<and> length (land_use_owner st) = N \<and>
     length (unmerged_HRU_indices_b st) = N \<and>
     l_b st = var_cell_count_compressed st * s2 \<and> j_b st \<le> l_b st \<and>
     (\<forall>i. j_b st \<le> i \<and> i < N \<longrightarrow> land_use_array st ! i = - 1 \<and> land_use_size st ! i = - 1) \<and>
     (\<Sum>i = 0..<j_b st. land_use_size st ! i) = int (l_b st) \<and>
     cell_start (var_to_HRU_b st) (var_cell_count_compressed st) = int (j_b st) \<and>
     (\<forall>i < var_cell_count_compressed st. cell_built s2 st i)"

text \<open>
  The number of cells of a mask that are not masked.
\<close>

definition unmasked :: "bool list \<Rightarrow> nat" where
  "unmasked m = length (filter (\<lambda>b. \<not> b) m)"

text \<open>
  A two-dimensional array of \<open>h\<close> rows and \<open>w\<close> columns.
\<close>

definition rectangular :: "'a list list \<Rightarrow> nat \<Rightarrow> nat \<Rightarrow> bool" where
  "rectangular a h w \<longleftrightarrow> length a = h \<and> (\<forall>row \<in> set a. length row = w)"

text \<open>
  A grid cell that is not masked and holds a land-use code outside \<open>{0, 1, 4, 5}\<close>.
\<close>

definition bad_cell :: "int list list \<Rightarrow> bool list list \<Rightarrow> nat \<Rightarrow> nat \<Rightarrow> nat \<Rightarrow> bool" where
  "bad_cell lu gmask s y x \<longleftrightarrow>
     \<not> gmask ! y ! x \<and> \<not> (\<forall>c \<in> set (cell_block lu s y x). land_use_domain c)"

text \<open>
  The invariant of the loops over the grid: the state is \<open>built\<close>, the two
  \<open>var_to_HRU\<close> arrays have their lengths, and the two cell counters have the given
  values.
\<close>

definition row_inv ::
  "nat \<Rightarrow> nat \<Rightarrow> nat \<Rightarrow> nat \<Rightarrow> nat \<Rightarrow> nat \<Rightarrow> builder \<Rightarrow> bool" where
  "row_inv s2 N n_nm M c u st \<longleftrightarrow>
     built s2 N st \<and> length (var_to_HRU_b st) = n_nm \<and>
     length (var_to_HRU_uncompressed_b st) = M \<and>
     var_cell_count_compressed st = c \<and> var_cell_count_uncompressed st = u"

section \<open>Round trip of the compressed grid\<close>

lemma concat_reshape_like:
  "length flat = length (concat rows) \<Longrightarrow> concat (reshape_like rows flat) = flat"
proof (induction rows arbitrary: flat)
  case Nil
  then show ?case by simp
next
  case (Cons row rows)
  then have "length (drop (length row) flat) = length (concat rows)"
    by simp
  then have "concat (reshape_like rows (drop (length row) flat)) = drop (length row) flat"
    by (rule Cons.IH)
  then show ?case by simp
qed

lemma length_scatter: "length (scatter outs m vs) = length outs"
  by (induction outs m vs rule: scatter.induct) simp_all

lemma select_scatter:
  "length outs = length m \<Longrightarrow> length vs = length m - mask_sum m \<Longrightarrow>
   map fst (filter (\<lambda>(v, b). \<not> b) (zip (scatter outs m vs) m)) = vs"
proof (induction outs m vs rule: scatter.induct)
  case (3 out outs m vs)
  then show ?case by (simp add: mask_sum_def)
next
  case (4 out outs m)
  then have "length (filter (\<lambda>b. b) m) < Suc (length m)"
    by (simp add: le_imp_less_Suc)
  with 4 show ?case by (simp add: mask_sum_def Suc_diff_le)
next
  case (5 out outs m v vs)
  have "length (filter (\<lambda>b. b) m) \<le> length m"
    by simp
  with 5 show ?case by (simp add: mask_sum_def Suc_diff_le)
qed (simp_all add: mask_sum_def)

text \<open>
  C1. For every compressed array \<open>x\<close> (its length is \<open>compressed_size\<close>) and every fill
  value, also the default one, \<open>compress(decompress(x, fill))\<close> returns \<open>x\<close>: neither call
  raises, and the result has the elements of \<open>x\<close> in the same order.
\<close>

theorem compress_decompress:
  assumes "length x = compressed_size gmask"
  shows "rbind (decompress gmask dtype_default x fillvalue) (compress gmask) = Inr x"
proof -
  let ?m = "mask_flat gmask"
  let ?fill = "case fillvalue of None \<Rightarrow> dtype_default | Some v \<Rightarrow> v"
  let ?out = "scatter (replicate (length ?m) ?fill) ?m x"
  have len: "length x = length ?m - mask_sum ?m"
    using assms by (simp add: compressed_size_def)
  have dec: "decompress gmask dtype_default x fillvalue = Inr (reshape_like gmask ?out)"
    using len by (simp add: decompress_def assign_unmasked_def rbind_def)
  have "length ?out = length (concat gmask)"
    by (simp add: length_scatter mask_flat_def)
  then have flat: "concat (reshape_like gmask ?out) = ?out"
    by (rule concat_reshape_like)
  have "select_unmasked ?out ?m = Inr x"
    using len by (simp add: select_unmasked_def length_scatter select_scatter)
  with dec flat show ?thesis
    by (simp add: rbind_def compress_def)
qed

theorem compress_decompress_witness:
  "length [7, 8, 9 :: int] = compressed_size [[False, False], [False, True]] \<and>
   rbind (decompress [[False, False], [False, True]] 0 [7, 8, 9 :: int] (Some 5))
     (compress [[False, False], [False, True]]) = Inr [7, 8, 9]"
  using compress_decompress [of "[7, 8, 9 :: int]" "[[False, False], [False, True]]" 0 "Some 5"]
  by (simp add: compressed_size_def mask_flat_def mask_sum_def)

section \<open>Round trips of the converter\<close>

lemma slice_bound_nonneg: "0 \<le> i \<Longrightarrow> i \<le> int n \<Longrightarrow> slice_bound n i = nat i"
  by (simp add: slice_bound_def)

lemma py_slice_nat:
  "0 \<le> lo \<Longrightarrow> lo \<le> hi \<Longrightarrow> hi \<le> int (length xs) \<Longrightarrow>
   py_slice xs lo hi = take (nat hi - nat lo) (drop (nat lo) xs)"
  by (simp add: py_slice_def slice_bound_nonneg Let_def)

lemma py_slice_frame:
  assumes "0 \<le> lo" "lo \<le> hi" "hi \<le> int (length xs)" "length ys = length xs"
    and "take (nat hi) ys = take (nat hi) xs"
  shows "py_slice ys lo hi = py_slice xs lo hi"
proof -
  have "take (nat hi - nat lo) (drop (nat lo) ys) = drop (nat lo) (take (nat hi) ys)"
    by (simp add: drop_take)
  also have "\<dots> = drop (nat lo) (take (nat hi) xs)"
    using assms(5) by simp
  also have "\<dots> = take (nat hi - nat lo) (drop (nat lo) xs)"
    by (simp add: drop_take)
  finally show ?thesis
    using assms by (simp add: py_slice_nat)
qed

lemma slice_fill_nat:
  "0 \<le> lo \<Longrightarrow> lo \<le> hi \<Longrightarrow> hi \<le> int (length xs) \<Longrightarrow>
   slice_fill xs lo hi v = take (nat lo) xs @ replicate (nat hi - nat lo) v @ drop (nat hi) xs"
  by (simp add: slice_fill_def slice_bound_nonneg Let_def)

lemma slice_store_nat:
  "0 \<le> lo \<Longrightarrow> lo \<le> hi \<Longrightarrow> hi \<le> int (length xs) \<Longrightarrow> length vs = nat hi - nat lo \<Longrightarrow>
   slice_store xs lo hi vs = Inr (take (nat lo) xs @ vs @ drop (nat hi) xs)"
  by (simp add: slice_store_def slice_bound_nonneg Let_def)

lemma loop_round_trip:
  assumes "fills_cell step fn ratio Q"
  shows "length g = length v \<Longrightarrow> sorted_wrt (<) (prev # v) \<Longrightarrow> 0 \<le> prev \<Longrightarrow>
     (\<forall>c \<in> set v. c \<le> int (length out)) \<Longrightarrow> length out = length ratio \<Longrightarrow>
     cells_ok Q prev v \<Longrightarrow>
     \<exists>out' p'. rfold step (zip g v) (out, prev) = Inr (out', p') \<and> length out' = length out \<and>
        take (nat prev) out' = take (nat prev) out \<and>
        grid_loop fn out' ratio v prev = Inr g"
proof (induction v arbitrary: g out prev)
  case Nil
  then show ?case by simp
next
  case (Cons c cs)
  obtain d ds where g: "g = d # ds"
    using Cons.prems(1) by (cases g) auto
  have pc: "prev < c" and cn: "c \<le> int (length out)"
    using Cons.prems by auto
  have nz: "Q prev c"
    using Cons.prems by simp
  from assms pc cn nz Cons.prems(3,5)
  obtain out1 where step: "step (d, c) (out, prev) = Inr (out1, c)"
    and len1: "length out1 = length out"
    and frame1: "take (nat prev) out1 = take (nat prev) out"
    and red1: "reduce_cell fn (py_slice out1 prev c) (py_slice ratio prev c) = Inr d"
    unfolding fills_cell_def by blast
  have "\<exists>out' p'. rfold step (zip ds cs) (out1, c) = Inr (out', p') \<and> length out' = length out1 \<and>
        take (nat c) out' = take (nat c) out1 \<and> grid_loop fn out' ratio cs c = Inr ds"
    using Cons.prems g pc len1 by (intro Cons.IH) auto
  then obtain out' p' where rest: "rfold step (zip ds cs) (out1, c) = Inr (out', p')"
    and len': "length out' = length out1"
    and frame': "take (nat c) out' = take (nat c) out1"
    and loop': "grid_loop fn out' ratio cs c = Inr ds"
    by blast
  have le: "nat prev \<le> nat c"
    using pc by simp
  have "take (nat prev) (take (nat c) out') = take (nat prev) (take (nat c) out1)"
    using frame' by simp
  then have "take (nat prev) out' = take (nat prev) out1"
    using le by (simp add: min_absorb1)
  then have frame: "take (nat prev) out' = take (nat prev) out"
    using frame1 by simp
  have "py_slice out' prev c = py_slice out1 prev c"
    using Cons.prems(3) pc cn len1 len' frame' by (intro py_slice_frame) auto
  then have "grid_loop fn out' ratio (c # cs) prev = Inr (d # ds)"
    using red1 loop' by (simp add: rbind_def)
  then show ?case
    using step rest len' len1 frame g by (simp add: rbind_def)
qed

lemma cells_ok_nth:
  "(\<forall>i < length v. Q ((prev # v) ! i) (v ! i)) \<Longrightarrow> cells_ok Q prev v"
proof (induction v arbitrary: prev)
  case Nil
  then show ?case by simp
next
  case (Cons c cs)
  have "Q prev c"
    using Cons.prems by auto
  moreover have "\<forall>i < length cs. Q ((c # cs) ! i) (cs ! i)"
  proof (intro allI impI)
    fix i assume "i < length cs"
    then have "Q ((prev # c # cs) ! Suc i) ((c # cs) ! Suc i)"
      using Cons.prems by (metis Suc_less_eq length_Cons)
    then show "Q ((c # cs) ! i) (cs ! i)" by simp
  qed
  ultimately show ?case
    using Cons.IH by simp
qed

lemma cell_start_nth: "cell_start v i = (0 # v) ! i"
  by (cases i) (simp_all add: cell_start_def)

lemma fills_cell_copy_max: "fills_cell hru_copy_step ''max'' ratio (\<lambda>prev c. True)"
  unfolding fills_cell_def
proof (intro allI impI)
  fix d :: real and c :: int and out :: "real list" and prev :: int
  assume a: "0 \<le> prev \<and> prev < c \<and> c \<le> int (length out) \<and> length out = length ratio \<and> True"
  let ?out1 = "slice_fill out prev c d"
  have fill: "?out1 = take (nat prev) out @ replicate (nat c - nat prev) d @ drop (nat c) out"
    using a by (simp add: slice_fill_nat)
  have np: "nat prev \<le> nat c" "nat c \<le> length out" "nat prev \<le> length out"
    using a by auto
  have len: "length ?out1 = length out"
    using np by (simp add: fill)
  have sl: "py_slice ?out1 prev c = replicate (nat c - nat prev) d"
    using a len np by (simp add: py_slice_nat) (simp add: fill)
  have "nat c - nat prev \<noteq> 0"
    using a by arith
  then have "set (py_slice ?out1 prev c) = {d}" and "py_slice ?out1 prev c \<noteq> []"
    unfolding sl by simp_all
  then have "reduce_cell ''max'' (py_slice ?out1 prev c) (py_slice ratio prev c) = Inr d"
    by (simp add: reduce_cell_def)
  moreover have "take (nat prev) ?out1 = take (nat prev) out"
    using np by (simp add: fill)
  ultimately show "\<exists>out1. hru_copy_step (d, c) (out, prev) = Inr (out1, c) \<and> length out1 = length out \<and>
           take (nat prev) out1 = take (nat prev) out \<and>
           reduce_cell ''max'' (py_slice out1 prev c) (py_slice ratio prev c) = Inr d"
    using len by (simp add: hru_copy_step_def)
qed

lemma fills_cell_copy_min: "fills_cell hru_copy_step ''min'' ratio (\<lambda>prev c. True)"
  unfolding fills_cell_def
proof (intro allI impI)
  fix d :: real and c :: int and out :: "real list" and prev :: int
  assume a: "0 \<le> prev \<and> prev < c \<and> c \<le> int (length out) \<and> length out = length ratio \<and> True"
  let ?out1 = "slice_fill out prev c d"
  have fill: "?out1 = take (nat prev) out @ replicate (nat c - nat prev) d @ drop (nat c) out"
    using a by (simp add: slice_fill_nat)
  have np: "nat prev \<le> nat c" "nat c \<le> length out" "nat prev \<le> length out"
    using a by auto
  have len: "length ?out1 = length out"
    using np by (simp add: fill)
  have sl: "py_slice ?out1 prev c = replicate (nat c - nat prev) d"
    using a len np by (simp add: py_slice_nat) (simp add: fill)
  have "nat c - nat prev \<noteq> 0"
    using a by arith
  then have "set (py_slice ?out1 prev c) = {d}" and "py_slice ?out1 prev c \<noteq> []"
    unfolding sl by simp_all
  then have "reduce_cell ''min'' (py_slice ?out1 prev c) (py_slice ratio prev c) = Inr d"
    by (simp add: reduce_cell_def)
  moreover have "take (nat prev) ?out1 = take (nat prev) out"
    using np by (simp add: fill)
  ultimately show "\<exists>out1. hru_copy_step (d, c) (out, prev) = Inr (out1, c) \<and> length out1 = length out \<and>
           take (nat prev) out1 = take (nat prev) out \<and>
           reduce_cell ''min'' (py_slice out1 prev c) (py_slice ratio prev c) = Inr d"
    using len by (simp add: hru_copy_step_def)
qed

lemma sum_list_scale: "sum_list (map (\<lambda>r. k * r) xs) = k * sum_list xs"
  for k :: real
  by (induction xs) (simp_all add: algebra_simps)

lemma fills_cell_mean_sum:
  "fills_cell (hru_mean_step ratio) ''sum'' ratio (\<lambda>prev c. sum_list (py_slice ratio prev c) \<noteq> 0)"
  unfolding fills_cell_def
proof (intro allI impI)
  fix d :: real and c :: int and out :: "real list" and prev :: int
  assume a: "0 \<le> prev \<and> prev < c \<and> c \<le> int (length out) \<and> length out = length ratio \<and>
    sum_list (py_slice ratio prev c) \<noteq> 0"
  have np: "nat prev \<le> nat c" "nat c \<le> length out" "nat prev \<le> length out"
    using a by auto
  define cs where "cs = py_slice ratio prev c"
  define vs where "vs = map (\<lambda>r. d / sum_list cs * r) cs"
  define out1 where "out1 = take (nat prev) out @ vs @ drop (nat c) out"
  have lvs: "length vs = nat c - nat prev"
    using a np by (simp add: vs_def cs_def py_slice_nat)
  then have store: "slice_store out prev c vs = Inr out1"
    unfolding out1_def using a by (intro slice_store_nat) auto
  have len: "length out1 = length out"
    using np lvs by (simp add: out1_def)
  have sl: "py_slice out1 prev c = vs"
    using a len lvs np by (simp add: py_slice_nat) (simp add: out1_def)
  have "sum_list vs = d / sum_list cs * sum_list cs"
    unfolding vs_def by (rule sum_list_scale)
  also have "\<dots> = d"
    using a by (simp add: cs_def)
  finally have red: "reduce_cell ''sum'' (py_slice out1 prev c) (py_slice ratio prev c) = Inr d"
    by (simp add: sl reduce_cell_def)
  have frame: "take (nat prev) out1 = take (nat prev) out"
    using np by (simp add: out1_def)
  have "hru_mean_step ratio (d, c) (out, prev) =
      (if sum_list cs = 0 then Inl ZeroDivisionError
       else rbind (slice_store out prev c vs) (\<lambda>output_data. Inr (output_data, c)))"
    unfolding hru_mean_step_def cs_def vs_def Let_def by simp
  then have "hru_mean_step ratio (d, c) (out, prev) = Inr (out1, c)"
    using a store by (simp add: rbind_def cs_def)
  with red frame show "\<exists>out1. hru_mean_step ratio (d, c) (out, prev) = Inr (out1, c) \<and> length out1 = length out \<and>
           take (nat prev) out1 = take (nat prev) out \<and>
           reduce_cell ''sum'' (py_slice out1 prev c) (py_slice ratio prev c) = Inr d"
    using len by blast
qed

lemma sorted_wrt_less_last_bound:
  "sorted_wrt (<) (prev # v) \<Longrightarrow> v \<noteq> [] \<Longrightarrow> \<forall>c \<in> set v. c \<le> last v"
  for prev :: int
  by (induction v arbitrary: prev) (auto simp: less_imp_le)

text \<open>
  C10. Over index structures whose cells all have a non-empty unit range
  (\<open>var_to_HRU\<close> strictly increasing from above 0, its last entry the number of units),
  copying a grid array to the units and aggregating with \<open>max\<close>, or with \<open>min\<close>, returns
  the grid array unchanged.
\<close>

theorem copy_max_min_round_trip:
  assumes "sorted_wrt (<) (0 # v)" and "v \<noteq> []" and "last v = int (length ratio)"
    and "length g = length v"
  shows "rbind (to_HRU_numba g v ratio None) (\<lambda>d. to_grid_numba d v ratio ''max'') = Inr g
       \<and> rbind (to_HRU_numba g v ratio None) (\<lambda>d. to_grid_numba d v ratio ''min'') = Inr g"
proof -
  let ?out = "replicate (length ratio) (0::real)"
  have bound: "\<forall>c \<in> set v. c \<le> int (length ?out)"
    using sorted_wrt_less_last_bound [OF assms(1,2)] assms(3) by simp
  have ok: "cells_ok (\<lambda>prev c. True) 0 v"
    by (rule cells_ok_nth) simp
  obtain out1 p1 where 1: "rfold hru_copy_step (zip g v) (?out, 0) = Inr (out1, p1)"
    and "grid_loop ''max'' out1 ratio v 0 = Inr g"
    using loop_round_trip [OF fills_cell_copy_max [of ratio] assms(4,1) _ bound _ ok] by auto
  moreover obtain out2 p2 where 2: "rfold hru_copy_step (zip g v) (?out, 0) = Inr (out2, p2)"
    and "grid_loop ''min'' out2 ratio v 0 = Inr g"
    using loop_round_trip [OF fills_cell_copy_min [of ratio] assms(4,1) _ bound _ ok] by auto
  ultimately show ?thesis
    using assms by (simp add: to_HRU_numba_def to_grid_numba_def rbind_def)
qed

theorem copy_max_min_round_trip_witness:
  "sorted_wrt (<) (0 # [2, 3 :: int]) \<and> [2, 3 :: int] \<noteq> [] \<and>
   last [2, 3] = int (length [1 / 2, 1 / 2, 1 :: real]) \<and>
   length [7, 9 :: real] = length [2, 3 :: int] \<and>
   rbind (to_HRU_numba [7, 9] [2, 3] [1 / 2, 1 / 2, 1] None)
     (\<lambda>d. to_grid_numba d [2, 3] [1 / 2, 1 / 2, 1] ''max'') = Inr [7, 9] \<and>
   rbind (to_HRU_numba [7, 9] [2, 3] [1 / 2, 1 / 2, 1] None)
     (\<lambda>d. to_grid_numba d [2, 3] [1 / 2, 1 / 2, 1] ''min'') = Inr [7, 9]"
proof -
  have 1: "sorted_wrt (<) (0 # [2, 3 :: int])" by simp
  have 2: "[2, 3 :: int] \<noteq> []" by simp
  have 3: "last [2, 3] = int (length [1 / 2, 1 / 2, 1 :: real])" by simp
  have 4: "length [7, 9 :: real] = length [2, 3 :: int]" by simp
  from copy_max_min_round_trip [OF 1 2 3 4] 1 2 3 4 show ?thesis
    by blast
qed

text \<open>
  C2, as stated, fails. On the builder's output for one grid cell with two units of ratio
  \<open>1/2\<close> each, the grid value 1 is disaggregated with \<open>fn='mean'\<close> to \<open>[1/2, 1/2]\<close>, and
  the ratio-weighted mean of that is \<open>1/2\<close>, not 1. Every number here is a binary
  fraction, so floating-point arithmetic gives the same values.
\<close>

theorem mean_mean_round_trip_counterexample:
  "create_HRUs_numba [[1, 1], [- 1, - 1]] [[0, 0], [1, 1]] [[False]] 2 =
     Inr \<lparr>land_use_type = [0, 1], land_use_ratio = [1 / 2, 1 / 2],
           land_owners = [1, - 1], HRU_to_grid = [0, 0], var_to_HRU = [2],
           var_to_HRU_uncompressed = [2], unmerged_HRU_indices = [0, 0, 1, 1]\<rparr>
   \<and> to_HRU_numba [1] [2] [1 / 2, 1 / 2] (Some ''mean'') = Inr [1 / 2, 1 / 2]
   \<and> to_grid_numba [1 / 2, 1 / 2] [2] [1 / 2, 1 / 2] ''mean'' = Inr [1 / 2]"
  by code_simp

text \<open>
  C2, amended. Aggregating the area-weighted disaggregation with \<open>fn='sum'\<close> recovers the
  grid array: for index structures whose cells all have a non-empty unit range and a
  non-zero ratio sum, \<open>to_grid_numba(to_HRU_numba(g, fn='mean'), fn='sum')\<close> returns \<open>g\<close>
  (in exact arithmetic).
\<close>

theorem mean_sum_round_trip:
  assumes "sorted_wrt (<) (0 # v)" and "v \<noteq> []" and "last v = int (length ratio)"
    and "length g = length v"
    and "\<forall>i < length v. sum_list (py_slice ratio (cell_start v i) (v ! i)) \<noteq> 0"
  shows "rbind (to_HRU_numba g v ratio (Some ''mean'')) (\<lambda>d. to_grid_numba d v ratio ''sum'') = Inr g"
proof -
  let ?out = "replicate (length ratio) (0::real)"
  have bound: "\<forall>c \<in> set v. c \<le> int (length ?out)"
    using sorted_wrt_less_last_bound [OF assms(1,2)] assms(3) by simp
  have ok: "cells_ok (\<lambda>prev c. sum_list (py_slice ratio prev c) \<noteq> 0) 0 v"
    using assms(5) by (intro cells_ok_nth) (simp add: cell_start_nth)
  obtain out1 p1 where 1: "rfold (hru_mean_step ratio) (zip g v) (?out, 0) = Inr (out1, p1)"
    and "grid_loop ''sum'' out1 ratio v 0 = Inr g"
    using loop_round_trip [OF fills_cell_mean_sum assms(4,1) _ bound _ ok] by auto
  then show ?thesis
    using assms by (simp add: to_HRU_numba_def to_grid_numba_def rbind_def)
qed

theorem mean_sum_round_trip_witness:
  "sorted_wrt (<) (0 # [2, 3 :: int]) \<and> [2, 3 :: int] \<noteq> [] \<and>
   last [2, 3] = int (length [1 / 2, 1 / 2, 1 :: real]) \<and>
   length [7, 9 :: real] = length [2, 3 :: int] \<and>
   sum_list (py_slice [1 / 2, 1 / 2, 1 :: real] (cell_start [2, 3] 0) ([2, 3] ! 0)) \<noteq> 0 \<and>
   sum_list (py_slice [1 / 2, 1 / 2, 1 :: real] (cell_start [2, 3] 1) ([2, 3] ! 1)) \<noteq> 0 \<and>
   rbind (to_HRU_numba [7, 9] [2, 3] [1 / 2, 1 / 2, 1] (Some ''mean''))
     (\<lambda>d. to_grid_numba d [2, 3] [1 / 2, 1 / 2, 1] ''sum'') = Inr [7, 9]"
proof -
  have 1: "sorted_wrt (<) (0 # [2, 3 :: int])" by simp
  have 2: "[2, 3 :: int] \<noteq> []" by simp
  have 3: "last [2, 3] = int (length [1 / 2, 1 / 2, 1 :: real])" by simp
  have 4: "length [7, 9 :: real] = length [2, 3 :: int]" by simp
  have 5: "sum_list (py_slice [1 / 2, 1 / 2, 1 :: real] (cell_start [2, 3] 0) ([2, 3] ! 0)) \<noteq> 0"
    by code_simp
  have 6: "sum_list (py_slice [1 / 2, 1 / 2, 1 :: real] (cell_start [2, 3] 1) ([2, 3] ! 1)) \<noteq> 0"
    by code_simp
  have "\<forall>i < length [2, 3 :: int].
     sum_list (py_slice [1 / 2, 1 / 2, 1 :: real] (cell_start [2, 3] i) ([2, 3] ! i)) \<noteq> 0"
    using 5 6 by (simp add: less_Suc_eq)
  from mean_sum_round_trip [OF 1 2 3 4 this] 1 2 3 4 5 6 show ?thesis
    by blast
qed

lemma map2_replicate_mult:
  "length ws = k \<Longrightarrow> map2 (*) (replicate k d) ws = map (\<lambda>w. d * w) ws"
  for d :: real
  by (induction ws arbitrary: k) auto

lemma fills_cell_copy_mean:
  "fills_cell hru_copy_step ''mean'' ratio (\<lambda>prev c. sum_list (py_slice ratio prev c) \<noteq> 0)"
  unfolding fills_cell_def
proof (intro allI impI)
  fix d :: real and c :: int and out :: "real list" and prev :: int
  assume a: "0 \<le> prev \<and> prev < c \<and> c \<le> int (length out) \<and> length out = length ratio \<and>
    sum_list (py_slice ratio prev c) \<noteq> 0"
  let ?out1 = "slice_fill out prev c d"
  define ws where "ws = py_slice ratio prev c"
  have fill: "?out1 = take (nat prev) out @ replicate (nat c - nat prev) d @ drop (nat c) out"
    using a by (simp add: slice_fill_nat)
  have np: "nat prev \<le> nat c" "nat c \<le> length out" "nat prev \<le> length out"
    using a by auto
  have len: "length ?out1 = length out"
    using np by (simp add: fill)
  have sl: "py_slice ?out1 prev c = replicate (nat c - nat prev) d"
    using a len np by (simp add: py_slice_nat) (simp add: fill)
  have lws: "length ws = nat c - nat prev"
    using a np by (simp add: ws_def py_slice_nat)
  have nz: "sum_list ws \<noteq> 0"
    using a by (simp add: ws_def)
  have "array_mul (replicate (nat c - nat prev) d) ws = Inr (map (\<lambda>w. d * w) ws)"
    using lws by (simp add: array_mul_def map2_replicate_mult)
  moreover have "sum_list (map (\<lambda>w. d * w) ws) / sum_list ws = d"
    using nz by (simp add: sum_list_scale)
  ultimately have "reduce_cell ''mean'' (replicate (nat c - nat prev) d) ws = Inr d"
    using nz by (simp add: reduce_cell_def rbind_def)
  then have "reduce_cell ''mean'' (py_slice ?out1 prev c) (py_slice ratio prev c) = Inr d"
    by (simp only: sl ws_def)
  moreover have "take (nat prev) ?out1 = take (nat prev) out"
    using np by (simp add: fill)
  ultimately show "\<exists>out1. hru_copy_step (d, c) (out, prev) = Inr (out1, c) \<and> length out1 = length out \<and>
           take (nat prev) out1 = take (nat prev) out \<and>
           reduce_cell ''mean'' (py_slice out1 prev c) (py_slice ratio prev c) = Inr d"
    using len by (simp add: hru_copy_step_def)
qed

text \<open>
  The ratio-weighted mean is the inverse of the copy instead: under the same conditions,
  \<open>to_grid_numba(to_HRU_numba(g, fn=None), fn='mean')\<close> returns \<open>g\<close>.
\<close>

lemma copy_mean_round_trip:
  assumes "sorted_wrt (<) (0 # v)" and "v \<noteq> []" and "last v = int (length ratio)"
    and "length g = length v"
    and "\<forall>i < length v. sum_list (py_slice ratio (cell_start v i) (v ! i)) \<noteq> 0"
  shows "rbind (to_HRU_numba g v ratio None) (\<lambda>d. to_grid_numba d v ratio ''mean'') = Inr g"
proof -
  let ?out = "replicate (length ratio) (0::real)"
  have bound: "\<forall>c \<in> set v. c \<le> int (length ?out)"
    using sorted_wrt_less_last_bound [OF assms(1,2)] assms(3) by simp
  have ok: "cells_ok (\<lambda>prev c. sum_list (py_slice ratio prev c) \<noteq> 0) 0 v"
    using assms(5) by (intro cells_ok_nth) (simp add: cell_start_nth)
  obtain out1 p1 where 1: "rfold hru_copy_step (zip g v) (?out, 0) = Inr (out1, p1)"
    and "grid_loop ''mean'' out1 ratio v 0 = Inr g"
    using loop_round_trip [OF fills_cell_copy_mean assms(4,1) _ bound _ ok] by auto
  then show ?thesis
    using assms by (simp add: to_HRU_numba_def to_grid_numba_def rbind_def)
qed

section \<open>Scalars in the converter wrappers\<close>

text \<open>
  C8. \<open>to_HRU\<close> returns a Python int or float unchanged, and \<open>to_grid\<close> returns a Python
  float unchanged; a Python int given to \<open>to_grid\<close> is not passed through but handed to
  \<open>to_grid_numba\<close>, which raises.
\<close>

theorem to_grid_int_scalar_raises:
  "to_HRU hru (PyInt v) fn = Inr (PyInt v) \<and> to_HRU hru (PyFloat w) fn = Inr (PyFloat w) \<and>
   to_grid hru (PyFloat w) (Some name) = Inr (PyFloat w) \<and>
   to_grid hru (PyInt v) (Some name) = Inl TypingError"
  by (simp add: to_HRU_def to_grid_def)

section \<open>The builder\<close>

text \<open>
  C7. The concrete scenario: the mask \<open>[[0,0],[0,1]]\<close>, scaling 2, every sub-cell unowned
  (farm id \<open>-1\<close>) with land-use code 0. The builder returns three units, each with ratio
  1, and \<open>var_to_HRU = [1, 2, 3]\<close>.
\<close>

theorem create_HRUs_numba_two_by_two:
  "create_HRUs_numba
     [[- 1, - 1, - 1, - 1], [- 1, - 1, - 1, - 1], [- 1, - 1, - 1, - 1], [- 1, - 1, - 1, - 1]]
     [[0, 0, 0, 0], [0, 0, 0, 0], [0, 0, 0, 0], [0, 0, 0, 0]]
     [[False, False], [False, True]] 2 =
   Inr \<lparr>land_use_type = [0, 0, 0], land_use_ratio = [1, 1, 1],
         land_owners = [- 1, - 1, - 1], HRU_to_grid = [0, 1, 2],
         var_to_HRU = [1, 2, 3], var_to_HRU_uncompressed = [1, 2, 3, 3],
         unmerged_HRU_indices = [0, 0, 0, 0, 1, 1, 1, 1, 2, 2, 2, 2]\<rparr>"
  by code_simp

subsection \<open>One sub-cell\<close>

lemma farm_step_gen:
  "farm_step s = gen_step s (\<lambda>item. fst item \<noteq> - 1) fst (\<lambda>item. Some (fst item))"
  by (auto simp: fun_eq_iff farm_step_def gen_step_def)

lemma land_use_step_gen:
  "land_use_step s = gen_step s (\<lambda>item. fst item = - 1) (\<lambda>item. fst (snd item)) (\<lambda>item. None)"
  by (auto simp: fun_eq_iff land_use_step_def gen_step_def)

lemma cell_inv_refl:
  assumes "length (HRU_to_grid_b st) = N" "length (land_use_array st) = N"
     "length (land_use_size st) = N" "length (land_use_owner st) = N"
     "length (unmerged_HRU_indices_b st) = N"
     "\<forall>i. j_b st \<le> i \<and> i < N \<longrightarrow> land_use_array st ! i = - 1 \<and> land_use_size st ! i = - 1"
  shows "cell_inv s2 N st st"
  using assms unfolding cell_inv_def by simp

lemma cell_inv_open:
  assumes inv: "cell_inv s2 N st0 st" and jN: "j_b st < N"
    and k: "var_cell_count_compressed st * s2 \<le> k" "k < var_cell_count_compressed st * s2 + s2"
    and same: "var_to_HRU_b st' = var_to_HRU_b st"
       "var_to_HRU_uncompressed_b st' = var_to_HRU_uncompressed_b st"
       "var_cell_count_compressed st' = var_cell_count_compressed st"
       "var_cell_count_uncompressed st' = var_cell_count_uncompressed st"
    and j': "j_b st' = Suc (j_b st)" and l': "l_b st' = Suc (l_b st)"
    and arr: "land_use_array st' = (land_use_array st)[j_b st := lu]"
    and siz: "land_use_size st' = (land_use_size st)[j_b st := 1]"
    and own: "length (land_use_owner st') = length (land_use_owner st)"
    and h2g: "HRU_to_grid_b st' = (HRU_to_grid_b st)[j_b st := int (var_cell_count_compressed st)]"
    and unm: "unmerged_HRU_indices_b st' = (unmerged_HRU_indices_b st)[k := int (j_b st)]"
  shows "cell_inv s2 N st0 st'"
proof -
  note I = inv [unfolded cell_inv_def]
  have c: "var_cell_count_compressed st = var_cell_count_compressed st0"
    using I by simp
  have 1: "var_to_HRU_b st' = var_to_HRU_b st0 \<and>
     var_to_HRU_uncompressed_b st' = var_to_HRU_uncompressed_b st0 \<and>
     var_cell_count_compressed st' = var_cell_count_compressed st0 \<and>
     var_cell_count_uncompressed st' = var_cell_count_uncompressed st0"
    using I same by simp
  have 2: "length (HRU_to_grid_b st') = N \<and> length (land_use_array st') = N \<and>
     length (land_use_size st') = N \<and> length (land_use_owner st') = N \<and>
     length (unmerged_HRU_indices_b st') = N"
    using I by (simp add: arr siz own h2g unm)
  have 3: "j_b st0 \<le> j_b st' \<and> l_b st0 \<le> l_b st' \<and> j_b st' + l_b st0 \<le> l_b st' + j_b st0"
    using I by (simp add: j' l')
  have 4: "\<forall>i. j_b st' \<le> i \<and> i < N \<longrightarrow> land_use_array st' ! i = - 1 \<and> land_use_size st' ! i = - 1"
    using I by (simp add: j' arr siz)
  have 5: "\<forall>i < j_b st0. land_use_size st' ! i = land_use_size st0 ! i \<and>
                    HRU_to_grid_b st' ! i = HRU_to_grid_b st0 ! i"
    using I by (simp add: siz h2g)
  have "(\<Sum>i = j_b st0..<j_b st. land_use_size st' ! i) = (\<Sum>i = j_b st0..<j_b st. land_use_size st ! i)"
    by (rule sum.cong) (simp_all add: siz)
  moreover have "land_use_size st' ! j_b st = 1"
    using I jN by (simp add: siz)
  ultimately have 6: "(\<Sum>i = j_b st0..<j_b st'. land_use_size st' ! i) = int (l_b st') - int (l_b st0)"
    using I by (simp add: j' l')
  have 7: "\<forall>u. j_b st0 \<le> u \<and> u < j_b st' \<longrightarrow>
          HRU_to_grid_b st' ! u = int (var_cell_count_compressed st0)"
    using I jN by (auto simp: j' h2g c nth_list_update less_Suc_eq)
  have 8: "\<forall>k. k < N \<and> \<not> (var_cell_count_compressed st0 * s2 \<le> k \<and>
                        k < var_cell_count_compressed st0 * s2 + s2) \<longrightarrow>
          unmerged_HRU_indices_b st' ! k = unmerged_HRU_indices_b st0 ! k"
    using I k by (auto simp: unm c nth_list_update)
  from 1 2 3 4 5 6 7 8 show ?thesis
    unfolding cell_inv_def by blast
qed

lemma cell_inv_grow:
  assumes inv: "cell_inv s2 N st0 st" and jpos: "j_b st0 < j_b st" and jN: "j_b st \<le> N"
    and k: "var_cell_count_compressed st * s2 \<le> k" "k < var_cell_count_compressed st * s2 + s2"
    and same: "var_to_HRU_b st' = var_to_HRU_b st"
       "var_to_HRU_uncompressed_b st' = var_to_HRU_uncompressed_b st"
       "var_cell_count_compressed st' = var_cell_count_compressed st"
       "var_cell_count_uncompressed st' = var_cell_count_uncompressed st"
    and j': "j_b st' = j_b st" and l': "l_b st' = Suc (l_b st)"
    and arr: "land_use_array st' = land_use_array st"
    and siz: "land_use_size st' =
        (land_use_size st)[j_b st - 1 := land_use_size st ! (j_b st - 1) + 1]"
    and own: "length (land_use_owner st') = length (land_use_owner st)"
    and h2g: "HRU_to_grid_b st' = HRU_to_grid_b st"
    and unm: "unmerged_HRU_indices_b st' = (unmerged_HRU_indices_b st)[k := int (j_b st) - 1]"
  shows "cell_inv s2 N st0 st'"
proof -
  note I = inv [unfolded cell_inv_def]
  have c: "var_cell_count_compressed st = var_cell_count_compressed st0"
    using I by simp
  have 1: "var_to_HRU_b st' = var_to_HRU_b st0 \<and>
     var_to_HRU_uncompressed_b st' = var_to_HRU_uncompressed_b st0 \<and>
     var_cell_count_compressed st' = var_cell_count_compressed st0 \<and>
     var_cell_count_uncompressed st' = var_cell_count_uncompressed st0"
    using I same by simp
  have 2: "length (HRU_to_grid_b st') = N \<and> length (land_use_array st') = N \<and>
     length (land_use_size st') = N \<and> length (land_use_owner st') = N \<and>
     length (unmerged_HRU_indices_b st') = N"
    using I by (simp add: arr siz own h2g unm)
  have 3: "j_b st0 \<le> j_b st' \<and> l_b st0 \<le> l_b st' \<and> j_b st' + l_b st0 \<le> l_b st' + j_b st0"
    using I by (simp add: j' l')
  have 4: "\<forall>i. j_b st' \<le> i \<and> i < N \<longrightarrow> land_use_array st' ! i = - 1 \<and> land_use_size st' ! i = - 1"
    using I jpos by (auto simp: j' arr siz nth_list_update)
  have 5: "\<forall>i < j_b st0. land_use_size st' ! i = land_use_size st0 ! i \<and>
                    HRU_to_grid_b st' ! i = HRU_to_grid_b st0 ! i"
    using I jpos by (auto simp: siz h2g nth_list_update)
  have split: "{j_b st0..<j_b st} = insert (j_b st - 1) {j_b st0..<j_b st - 1}"
    using jpos by auto
  have "(\<Sum>i = j_b st0..<j_b st - 1. land_use_size st' ! i)
      = (\<Sum>i = j_b st0..<j_b st - 1. land_use_size st ! i)"
    by (rule sum.cong) (simp_all add: siz)
  moreover have "land_use_size st' ! (j_b st - 1) = land_use_size st ! (j_b st - 1) + 1"
    using I jpos jN by (simp add: siz)
  ultimately have "(\<Sum>i = j_b st0..<j_b st. land_use_size st' ! i)
      = (\<Sum>i = j_b st0..<j_b st. land_use_size st ! i) + 1"
    by (simp add: split)
  then have 6: "(\<Sum>i = j_b st0..<j_b st'. land_use_size st' ! i) = int (l_b st') - int (l_b st0)"
    using I by (simp add: j' l')
  have 7: "\<forall>u. j_b st0 \<le> u \<and> u < j_b st' \<longrightarrow>
          HRU_to_grid_b st' ! u = int (var_cell_count_compressed st0)"
    using I by (simp add: j' h2g)
  have 8: "\<forall>k. k < N \<and> \<not> (var_cell_count_compressed st0 * s2 \<le> k \<and>
                        k < var_cell_count_compressed st0 * s2 + s2) \<longrightarrow>
          unmerged_HRU_indices_b st' ! k = unmerged_HRU_indices_b st0 ! k"
    using I k by (auto simp: unm c nth_list_update)
  from 1 2 3 4 5 6 7 8 show ?thesis
    unfolding cell_inv_def by blast
qed

lemma gen_step_skip: "\<not> active item \<Longrightarrow> gen_step s active key owner item sp = Inr sp"
  by (simp add: gen_step_def)

lemma gen_step_inv:
  assumes inv: "cell_inv s2 N st0 st" and s2: "s2 = s ^ 2"
    and pinv: "prev \<noteq> - 1 \<longrightarrow> j_b st0 < j_b st"
    and act: "active item" and key: "key item \<noteq> - 1"
    and si: "snd (snd item) < s2"
    and blockN: "var_cell_count_compressed st0 * s2 + s2 \<le> N"
    and lN: "l_b st < N" and j0l0: "j_b st0 \<le> l_b st0"
  shows "\<exists>st'. gen_step s active key owner item (st, prev) = Inr (st', key item) \<and>
           cell_inv s2 N st0 st' \<and> j_b st0 < j_b st' \<and> l_b st' = Suc (l_b st) \<and>
           slot_done st0 st' (snd (snd item) + var_cell_count_compressed st0 * s2) \<and>
           (\<forall>k. slot_done st0 st k \<longrightarrow> slot_done st0 st' k)"
proof -
  note I = inv [unfolded cell_inv_def]
  define k where "k = snd (snd item) + var_cell_count_compressed st * s ^ 2"
  have c: "var_cell_count_compressed st = var_cell_count_compressed st0"
    using I by simp
  have k_eq: "k = snd (snd item) + var_cell_count_compressed st0 * s2"
    by (simp add: k_def c s2)
  have kb: "var_cell_count_compressed st * s2 \<le> k" "k < var_cell_count_compressed st * s2 + s2"
    using si by (simp_all add: k_def s2)
  have kN: "k < N"
    using kb blockN c by simp
  have jN: "j_b st < N"
    using I lN j0l0 by linarith
  have lens: "length (HRU_to_grid_b st) = N" "length (land_use_array st) = N"
     "length (land_use_size st) = N" "length (land_use_owner st) = N"
     "length (unmerged_HRU_indices_b st) = N"
    using I by simp_all
  have fresh: "land_use_array st ! j_b st = - 1" "land_use_size st ! j_b st = - 1"
    using I jN by simp_all
  show ?thesis
  proof (cases "key item \<noteq> prev")
    case True
    define st1 where "st1 = st\<lparr>land_use_array := (land_use_array st)[j_b st := fst (snd item)],
                  land_use_size := (land_use_size st)[j_b st := 1],
                  land_use_owner :=
                    (case owner item of None \<Rightarrow> land_use_owner st
                     | Some farm \<Rightarrow> (land_use_owner st)[j_b st := farm]),
                  HRU_to_grid_b := (HRU_to_grid_b st)[j_b st := int (var_cell_count_compressed st)],
                  j_b := j_b st + 1\<rparr>"
    define st' where "st' = st1\<lparr>unmerged_HRU_indices_b :=
                      (unmerged_HRU_indices_b st1)[k := int (j_b st)], l_b := l_b st1 + 1\<rparr>"
    have open1: "open_unit (fst (snd item)) (owner item) st = Inr st1"
      using jN lens fresh by (simp add: open_unit_def st1_def Let_def)
    have "assign_subcell s (snd (snd item)) st1 = Inr st'"
      using kN lens by (simp add: assign_subcell_def Let_def st'_def) (simp add: st1_def k_def)
    with open1 True have res: "gen_step s active key owner item (st, prev) = Inr (st', key item)"
      using act by (simp add: gen_step_def rbind_def)
    have own: "length (land_use_owner st') = length (land_use_owner st)"
      by (cases "owner item") (simp_all add: st'_def st1_def)
    have ci: "cell_inv s2 N st0 st'"
      by (rule cell_inv_open [OF inv jN kb, where lu = "fst (snd item)"])
         (simp_all add: own, simp_all add: st'_def st1_def)
    have j': "j_b st' = Suc (j_b st)" and l': "l_b st' = Suc (l_b st)"
      and unm: "unmerged_HRU_indices_b st' = (unmerged_HRU_indices_b st)[k := int (j_b st)]"
      by (simp_all add: st'_def st1_def)
    have d1: "slot_done st0 st' k"
      using I kN lens by (simp add: slot_done_def unm j')
    have d2: "\<forall>q. slot_done st0 st q \<longrightarrow> slot_done st0 st' q"
      using I kN lens by (auto simp: slot_done_def unm j' nth_list_update)
    have "j_b st0 < j_b st'"
      using I by (simp add: j')
    with res ci l' d1 d2 show ?thesis
      unfolding k_eq by blast
  next
    case False
    then have "prev \<noteq> - 1"
      using key by simp
    then have jpos: "j_b st0 < j_b st"
      using pinv by simp
    then have j0: "j_b st \<noteq> 0" by simp
    define st1 where "st1 = st\<lparr>land_use_size :=
        (land_use_size st)[j_b st - 1 := land_use_size st ! (j_b st - 1) + 1]\<rparr>"
    define st' where "st' = st1\<lparr>unmerged_HRU_indices_b :=
                      (unmerged_HRU_indices_b st1)[k := int (j_b st) - 1], l_b := l_b st1 + 1\<rparr>"
    have grow1: "grow_unit st = Inr st1"
      using jN j0 lens by (simp add: grow_unit_def st1_def Let_def)
    have "assign_subcell s (snd (snd item)) st1 = Inr st'"
      using kN lens j0 by (simp add: assign_subcell_def Let_def st'_def) (simp add: st1_def k_def)
    with grow1 False have res: "gen_step s active key owner item (st, prev) = Inr (st', key item)"
      using act by (simp add: gen_step_def rbind_def)
    have ci: "cell_inv s2 N st0 st'"
      by (rule cell_inv_grow [OF inv jpos _ kb]) (use jN in \<open>simp_all add: st'_def st1_def\<close>)
    have j': "j_b st' = j_b st" and l': "l_b st' = Suc (l_b st)"
      and unm: "unmerged_HRU_indices_b st' = (unmerged_HRU_indices_b st)[k := int (j_b st) - 1]"
      by (simp_all add: st'_def st1_def)
    have d1: "slot_done st0 st' k"
      using I kN lens jpos by (simp add: slot_done_def unm j')
    have d2: "\<forall>q. slot_done st0 st q \<longrightarrow> slot_done st0 st' q"
      using I kN lens jpos by (auto simp: slot_done_def unm j' nth_list_update)
    have "j_b st0 < j_b st'"
      using jpos by (simp add: j')
    with res ci l' d1 d2 show ?thesis
      unfolding k_eq by blast
  qed
qed

subsection \<open>One grid cell\<close>

lemma item_loop:
  assumes s2: "s2 = s ^ 2"
    and blockN: "var_cell_count_compressed st0 * s2 + s2 \<le> N"
    and j0l0: "j_b st0 \<le> l_b st0"
  shows "cell_inv s2 N st0 st \<Longrightarrow> (prev \<noteq> - 1 \<longrightarrow> j_b st0 < j_b st) \<Longrightarrow>
    (\<forall>item \<in> set items. active item \<longrightarrow> key item \<noteq> - 1 \<and> snd (snd item) < s2) \<Longrightarrow>
    l_b st + length (filter active items) \<le> N \<Longrightarrow>
    \<exists>st' p'. rfold (gen_step s active key owner) items (st, prev) = Inr (st', p') \<and>
      cell_inv s2 N st0 st' \<and> l_b st' = l_b st + length (filter active items) \<and>
      j_b st \<le> j_b st' \<and>
      (\<forall>item \<in> set items. active item \<longrightarrow>
          slot_done st0 st' (snd (snd item) + var_cell_count_compressed st0 * s2)) \<and>
      (\<forall>q. slot_done st0 st q \<longrightarrow> slot_done st0 st' q) \<and>
      (filter active items \<noteq> [] \<longrightarrow> j_b st0 < j_b st')"
proof (induction items arbitrary: st prev)
  case Nil
  then show ?case by simp
next
  case (Cons item items)
  show ?case
  proof (cases "active item")
    case False
    from Cons.prems have
      "\<exists>st' p'. rfold (gen_step s active key owner) items (st, prev) = Inr (st', p') \<and>
      cell_inv s2 N st0 st' \<and> l_b st' = l_b st + length (filter active items) \<and>
      j_b st \<le> j_b st' \<and>
      (\<forall>item \<in> set items. active item \<longrightarrow>
          slot_done st0 st' (snd (snd item) + var_cell_count_compressed st0 * s2)) \<and>
      (\<forall>q. slot_done st0 st q \<longrightarrow> slot_done st0 st' q) \<and>
      (filter active items \<noteq> [] \<longrightarrow> j_b st0 < j_b st')"
      using False by (intro Cons.IH) auto
    then show ?thesis
      using False by (simp add: gen_step_skip rbind_def)
  next
    case True
    have lN: "l_b st < N"
      using Cons.prems(4) True by simp
    have key: "key item \<noteq> - 1" and si: "snd (snd item) < s2"
      using Cons.prems(3) True by simp_all
    from gen_step_inv [where active = active and key = key and item = item and owner = owner,
        OF Cons.prems(1) s2 Cons.prems(2) True key si blockN lN j0l0]
    obtain st1 where step: "gen_step s active key owner item (st, prev) = Inr (st1, key item)"
      and inv1: "cell_inv s2 N st0 st1" and j1: "j_b st0 < j_b st1" and l1: "l_b st1 = Suc (l_b st)"
      and d1: "slot_done st0 st1 (snd (snd item) + var_cell_count_compressed st0 * s2)"
      and m1: "\<forall>q. slot_done st0 st q \<longrightarrow> slot_done st0 st1 q"
      by blast
    have "\<exists>st' p'. rfold (gen_step s active key owner) items (st1, key item) = Inr (st', p') \<and>
      cell_inv s2 N st0 st' \<and> l_b st' = l_b st1 + length (filter active items) \<and>
      j_b st1 \<le> j_b st' \<and>
      (\<forall>item \<in> set items. active item \<longrightarrow>
          slot_done st0 st' (snd (snd item) + var_cell_count_compressed st0 * s2)) \<and>
      (\<forall>q. slot_done st0 st1 q \<longrightarrow> slot_done st0 st' q) \<and>
      (filter active items \<noteq> [] \<longrightarrow> j_b st0 < j_b st')"
      using Cons.prems(3,4) True inv1 j1 l1 by (intro Cons.IH) auto
    then obtain st' p' where
      rest: "rfold (gen_step s active key owner) items (st1, key item) = Inr (st', p')"
      and inv': "cell_inv s2 N st0 st'"
      and l': "l_b st' = l_b st1 + length (filter active items)"
      and j': "j_b st1 \<le> j_b st'"
      and d': "\<forall>item \<in> set items. active item \<longrightarrow>
          slot_done st0 st' (snd (snd item) + var_cell_count_compressed st0 * s2)"
      and m': "\<forall>q. slot_done st0 st1 q \<longrightarrow> slot_done st0 st' q"
      by blast
    have jmono: "j_b st \<le> j_b st1"
      using step True
      by (auto simp: gen_step_def rbind_def open_unit_def grow_unit_def assign_subcell_def Let_def
          split: if_splits)
    have "rfold (gen_step s active key owner) (item # items) (st, prev) = Inr (st', p')"
      using step rest by (simp add: rbind_def)
    moreover have "l_b st' = l_b st + length (filter active (item # items))"
      using l' l1 True by simp
    moreover have "j_b st \<le> j_b st'" "j_b st0 < j_b st'"
      using jmono j' j1 by simp_all
    moreover have "\<forall>it \<in> set (item # items). active it \<longrightarrow>
          slot_done st0 st' (snd (snd it) + var_cell_count_compressed st0 * s2)"
      using d' d1 m' by simp
    moreover have "\<forall>q. slot_done st0 st q \<longrightarrow> slot_done st0 st' q"
      using m1 m' by simp
    ultimately show ?thesis
      using inv' by blast
  qed
qed

lemma set_argsort: "set (argsort a) = {0..<length a}"
  by (simp add: argsort_def)

lemma distinct_argsort: "distinct (argsort a)"
  by (simp add: argsort_def)

lemma length_filter_card: "distinct xs \<Longrightarrow> length (filter P xs) = card {x \<in> set xs. P x}"
  by (metis distinct_card distinct_filter set_filter)

lemma length_filter_argsort:
  "length (filter P (argsort a)) = length (filter P [0..<length a])"
  by (simp add: length_filter_card distinct_argsort set_argsort)

lemma zip3_map: "zip (map f idx) (zip (map g idx) idx) = map (\<lambda>i. (f i, g i, i)) idx"
  by (induction idx) simp_all

lemma sorted_items_eq:
  assumes "length cl = length cf" "length key = length cf"
  shows "sorted_items cf cl key = Inr (map (\<lambda>i. (cf ! i, cl ! i, i)) (argsort key))"
  using assms by (simp add: sorted_items_def fancy_def rbind_def set_argsort zip3_map Let_def)

lemma cell_built_frame:
  assumes "cell_built s2 st i"
    and "cell_start (var_to_HRU_b st') i = cell_start (var_to_HRU_b st) i"
    and "var_to_HRU_b st' ! i = var_to_HRU_b st ! i"
    and "j_b st \<le> j_b st'"
    and "\<forall>u < j_b st. land_use_size st' ! u = land_use_size st ! u \<and>
                      HRU_to_grid_b st' ! u = HRU_to_grid_b st ! u"
    and "\<forall>k. i * s2 \<le> k \<and> k < i * s2 + s2 \<longrightarrow>
           unmerged_HRU_indices_b st' ! k = unmerged_HRU_indices_b st ! k"
  shows "cell_built s2 st' i"
proof -
  note C = assms(1) [unfolded cell_built_def]
  let ?lo = "cell_start (var_to_HRU_b st) i" and ?hi = "var_to_HRU_b st ! i"
  have hi: "nat ?hi \<le> j_b st"
    using C by (simp add: nat_le_iff)
  have "(\<Sum>u = nat ?lo..<nat ?hi. land_use_size st' ! u) = (\<Sum>u = nat ?lo..<nat ?hi. land_use_size st ! u)"
    using hi assms(5) by (intro sum.cong) auto
  moreover have "\<forall>u. nat ?lo \<le> u \<and> u < nat ?hi \<longrightarrow> HRU_to_grid_b st' ! u = int i"
    using C hi assms(5) by auto
  ultimately show ?thesis
    unfolding cell_built_def using C assms(2,3,4,6) by simp
qed

lemma land_use_domain_not_minus: "land_use_domain c \<Longrightarrow> c \<noteq> - 1"
  by (auto simp: land_use_domain_def)

lemma process_cell_built:
  assumes b: "built s2 N st" and s2: "s2 = s ^ 2" and pos: "0 < s2"
    and c: "var_cell_count_compressed st < length (var_to_HRU_b st)"
    and blockN: "var_cell_count_compressed st * s2 + s2 \<le> N"
    and lenf: "length (cell_block farms s y x) = s2"
    and lenl: "length (cell_block lu s y x) = s2"
    and dom: "\<forall>c \<in> set (cell_block lu s y x). land_use_domain c"
  shows "\<exists>st'. process_cell farms lu s y x st = Inr st' \<and> built s2 N st' \<and>
     var_cell_count_compressed st' = Suc (var_cell_count_compressed st) \<and>
     length (var_to_HRU_b st') = length (var_to_HRU_b st) \<and>
     var_to_HRU_uncompressed_b st' = var_to_HRU_uncompressed_b st \<and>
     var_cell_count_uncompressed st' = var_cell_count_uncompressed st"
proof -
  note B = b [unfolded built_def]
  define cf where "cf = cell_block farms s y x"
  define cl where "cl = cell_block lu s y x"
  define c0 where "c0 = var_cell_count_compressed st"
  define items1 where "items1 = map (\<lambda>i. (cf ! i, cl ! i, i)) (argsort cf)"
  define items2 where "items2 = map (\<lambda>i. (cf ! i, cl ! i, i)) (argsort cl)"
  define a1 where "a1 = (\<lambda>item :: int \<times> int \<times> nat. fst item \<noteq> - 1)"
  define a2 where "a2 = (\<lambda>item :: int \<times> int \<times> nat. fst item = - 1)"
  have len: "length cf = s2" "length cl = s2"
    using lenf lenl by (simp_all add: cf_def cl_def)
  have si1: "sorted_items cf cl cf = Inr items1"
    using len by (simp add: sorted_items_eq items1_def)
  have si2: "sorted_items cf cl cl = Inr items2"
    using len by (simp add: sorted_items_eq items2_def)
  have cnt1: "length (filter a1 items1) = length (filter (\<lambda>i. cf ! i \<noteq> - 1) [0..<s2])"
    using length_filter_argsort [of "\<lambda>i. cf ! i \<noteq> - 1" cf] len
    by (simp add: items1_def a1_def filter_map comp_def)
  have cnt2: "length (filter a2 items2) = length (filter (\<lambda>i. \<not> cf ! i \<noteq> - 1) [0..<s2])"
    using length_filter_argsort [of "\<lambda>i. cf ! i = - 1" cl] len
    by (simp add: items2_def a2_def filter_map comp_def)
  have cnt: "length (filter a1 items1) + length (filter a2 items2) = s2"
    unfolding cnt1 cnt2 using sum_length_filter_compl [of "\<lambda>i. cf ! i \<noteq> - 1" "[0..<s2]"] by simp
  have inv0: "cell_inv s2 N st st"
    using B by (intro cell_inv_refl) simp_all
  have j0l0: "j_b st \<le> l_b st"
    using B by simp
  have it1: "\<forall>item \<in> set items1. a1 item \<longrightarrow> fst item \<noteq> - 1 \<and> snd (snd item) < s2"
    using len by (auto simp: items1_def a1_def set_argsort)
  have "l_b st + length (filter a1 items1) \<le> N"
    using B blockN cnt by simp
  from item_loop [where active = a1 and key = fst and owner = "\<lambda>item. Some (fst item)" and prev = "- 1",
      OF s2 blockN j0l0 inv0 _ it1 this]
  obtain st1 p1 where
    loop1: "rfold (gen_step s a1 fst (\<lambda>item. Some (fst item))) items1 (st, - 1) = Inr (st1, p1)"
    and inv1: "cell_inv s2 N st st1"
    and l1: "l_b st1 = l_b st + length (filter a1 items1)"
    and d1: "\<forall>item \<in> set items1. a1 item \<longrightarrow>
          slot_done st st1 (snd (snd item) + var_cell_count_compressed st * s2)"
    and e1: "filter a1 items1 \<noteq> [] \<longrightarrow> j_b st < j_b st1"
    by auto
  have it2: "\<forall>item \<in> set items2. a2 item \<longrightarrow> fst (snd item) \<noteq> - 1 \<and> snd (snd item) < s2"
    using len dom by (auto simp: items2_def a2_def set_argsort cl_def land_use_domain_not_minus)
  have "l_b st1 + length (filter a2 items2) \<le> N"
    using B blockN cnt l1 by simp
  from item_loop [where active = a2 and key = "\<lambda>item. fst (snd item)" and owner = "\<lambda>item. None"
      and prev = "- 1", OF s2 blockN j0l0 inv1 _ it2 this]
  obtain st2 p2 where
    loop2: "rfold (gen_step s a2 (\<lambda>item. fst (snd item)) (\<lambda>item. None)) items2 (st1, - 1)
       = Inr (st2, p2)"
    and inv2: "cell_inv s2 N st st2"
    and l2: "l_b st2 = l_b st1 + length (filter a2 items2)"
    and j12: "j_b st1 \<le> j_b st2"
    and d2: "\<forall>item \<in> set items2. a2 item \<longrightarrow>
          slot_done st st2 (snd (snd item) + var_cell_count_compressed st * s2)"
    and m2: "\<forall>q. slot_done st st1 q \<longrightarrow> slot_done st st2 q"
    and e2: "filter a2 items2 \<noteq> [] \<longrightarrow> j_b st < j_b st2"
    by auto
  have l2': "l_b st2 = l_b st + s2"
    using l1 l2 cnt by simp
  have jlt: "j_b st < j_b st2"
  proof (cases "filter a1 items1 = []")
    case True
    then have "filter a2 items2 \<noteq> []"
      using cnt pos by auto
    then show ?thesis using e2 by simp
  next
    case False
    then show ?thesis using e1 j12 by simp
  qed
  have slots: "slot_done st st2 (i + c0 * s2)" if i: "i < s2" for i
  proof (cases "cf ! i = - 1")
    case True
    have "(cf ! i, cl ! i, i) \<in> set items2"
      using i len by (simp add: items2_def set_argsort)
    then show ?thesis
      using d2 True by (force simp: a2_def c0_def)
  next
    case False
    have "(cf ! i, cl ! i, i) \<in> set items1"
      using i len by (simp add: items1_def set_argsort)
    then have "slot_done st st1 (i + c0 * s2)"
      using d1 False by (force simp: a1_def c0_def)
    then show ?thesis using m2 by simp
  qed
  note I2 = inv2 [unfolded cell_inv_def]
  define st' where "st' = st2\<lparr>var_to_HRU_b := (var_to_HRU_b st2)[c0 := int (j_b st2)],
                                var_cell_count_compressed := c0 + 1\<rparr>"
  have c2: "var_cell_count_compressed st2 = c0" and v2: "var_to_HRU_b st2 = var_to_HRU_b st"
    using I2 by (simp_all add: c0_def)
  have close: "close_cell st2 = Inr st'"
    using c by (simp add: close_cell_def Let_def c2 v2 st'_def c0_def)
  have nonempty: "cl \<noteq> []"
    using len pos by auto
  then have "cl ! 0 \<in> set cl"
    by simp
  then have "land_use_domain (cl ! 0)"
    using dom by (simp add: cl_def)
  then have first: "- 1 \<noteq> cl ! 0"
    using land_use_domain_not_minus by fastforce
  have res: "process_cell farms lu s y x st = Inr st'"
    using dom si1 si2 loop1 loop2 close nonempty first
    unfolding process_cell_def Let_def cf_def [symmetric] cl_def [symmetric]
      farm_step_gen land_use_step_gen a1_def [symmetric] a2_def [symmetric]
    by (simp add: rbind_def)
  have fields: "HRU_to_grid_b st' = HRU_to_grid_b st2" "land_use_array st' = land_use_array st2"
    "land_use_size st' = land_use_size st2" "land_use_owner st' = land_use_owner st2"
    "unmerged_HRU_indices_b st' = unmerged_HRU_indices_b st2" "j_b st' = j_b st2"
    "l_b st' = l_b st2" "var_cell_count_compressed st' = Suc c0"
    "var_to_HRU_b st' = (var_to_HRU_b st)[c0 := int (j_b st2)]"
    "var_to_HRU_uncompressed_b st' = var_to_HRU_uncompressed_b st2"
    "var_cell_count_uncompressed st' = var_cell_count_uncompressed st2"
    by (simp_all add: st'_def v2)
  have start_old: "cell_start (var_to_HRU_b st') i = cell_start (var_to_HRU_b st) i" if "i \<le> c0" for i
    using that by (simp add: fields cell_start_def)
  have old: "cell_built s2 st' i" if i: "i < c0" for i
  proof (rule cell_built_frame [of s2 st])
    show "cell_built s2 st i"
      using B i by (simp add: c0_def)
    show "cell_start (var_to_HRU_b st') i = cell_start (var_to_HRU_b st) i"
      using i by (simp add: start_old)
    show "var_to_HRU_b st' ! i = var_to_HRU_b st ! i"
      using i by (simp add: fields)
    show "j_b st \<le> j_b st'"
      using I2 by (simp add: fields)
    show "\<forall>u<j_b st. land_use_size st' ! u = land_use_size st ! u \<and>
             HRU_to_grid_b st' ! u = HRU_to_grid_b st ! u"
      using I2 by (simp add: fields)
    have "i * s2 + s2 \<le> c0 * s2"
      using i by (metis Suc_leI mult_Suc mult_le_mono1 add.commute)
    then show "\<forall>k. i * s2 \<le> k \<and> k < i * s2 + s2 \<longrightarrow>
           unmerged_HRU_indices_b st' ! k = unmerged_HRU_indices_b st ! k"
      using I2 blockN by (auto simp: fields c0_def)
  qed
  have start_c0: "cell_start (var_to_HRU_b st') c0 = int (j_b st)"
    using B by (simp add: start_old c0_def)
  have at_c0: "var_to_HRU_b st' ! c0 = int (j_b st2)"
    using c by (simp add: fields c0_def)
  have new: "cell_built s2 st' c0"
    unfolding cell_built_def start_c0 at_c0
  proof (intro conjI)
    show "(\<Sum>u = nat (int (j_b st))..<nat (int (j_b st2)). land_use_size st' ! u) = int s2"
      using I2 l2' by (simp add: fields)
    show "\<forall>u. nat (int (j_b st)) \<le> u \<and> u < nat (int (j_b st2)) \<longrightarrow> HRU_to_grid_b st' ! u = int c0"
      using I2 by (simp add: fields c0_def)
    show "\<forall>k. c0 * s2 \<le> k \<and> k < c0 * s2 + s2 \<longrightarrow>
        int (j_b st) \<le> unmerged_HRU_indices_b st' ! k \<and>
        unmerged_HRU_indices_b st' ! k < int (j_b st2)"
    proof (intro allI impI)
      fix k assume k: "c0 * s2 \<le> k \<and> k < c0 * s2 + s2"
      then have "k - c0 * s2 < s2" "k = (k - c0 * s2) + c0 * s2"
        by linarith+
      with slots [of "k - c0 * s2"] have "slot_done st st2 k"
        by simp
      then show "int (j_b st) \<le> unmerged_HRU_indices_b st' ! k \<and>
        unmerged_HRU_indices_b st' ! k < int (j_b st2)"
        by (simp add: slot_done_def fields)
    qed
  qed (use jlt in \<open>simp_all add: fields\<close>)
  have all: "\<forall>i < var_cell_count_compressed st'. cell_built s2 st' i"
    using old new by (simp add: fields less_Suc_eq)
  have "(\<Sum>i = 0..<j_b st2. land_use_size st2 ! i)
      = (\<Sum>i = 0..<j_b st. land_use_size st2 ! i) + (\<Sum>i = j_b st..<j_b st2. land_use_size st2 ! i)"
    using jlt by (simp add: sum.atLeastLessThan_concat)
  also have "(\<Sum>i = 0..<j_b st. land_use_size st2 ! i) = (\<Sum>i = 0..<j_b st. land_use_size st ! i)"
    using I2 by (intro sum.cong) simp_all
  finally have total: "(\<Sum>i = 0..<j_b st'. land_use_size st' ! i) = int (l_b st')"
    using B I2 l2' by (simp add: fields)
  have "j_b st2 \<le> l_b st2"
    using I2 j0l0 by linarith
  then have "built s2 N st'"
    unfolding built_def using I2 B l2' total all at_c0
    by (simp add: fields cell_start_def c0_def)
  then show ?thesis
    using res I2 by (simp add: fields c0_def)
qed

subsection \<open>The loops over the grid\<close>

lemma rfold_append: "rfold f (xs @ ys) s = rbind (rfold f xs s) (rfold f ys)"
  by (induction xs arbitrary: s) (simp_all add: rbind_def split: sum.splits)

lemma rfold_upt_or_error:
  assumes init: "I 0 st"
    and step: "\<And>k st. k < n \<Longrightarrow> I k st \<Longrightarrow>
       (\<not> bad k \<and> (\<exists>st'. f k st = Inr st' \<and> I (Suc k) st')) \<or> (bad k \<and> f k st = Inl e)"
  shows "((\<forall>k < n. \<not> bad k) \<and> (\<exists>st'. rfold f [0..<n] st = Inr st' \<and> I n st')) \<or>
         ((\<exists>k < n. bad k) \<and> rfold f [0..<n] st = Inl e)"
  using step
proof (induction n)
  case 0
  then show ?case using init by simp
next
  case (Suc n)
  have prev: "((\<forall>k < n. \<not> bad k) \<and> (\<exists>st'. rfold f [0..<n] st = Inr st' \<and> I n st')) \<or>
         ((\<exists>k < n. bad k) \<and> rfold f [0..<n] st = Inl e)"
    using Suc.prems by (intro Suc.IH) auto
  show ?case
  proof (cases "\<exists>k < n. bad k")
    case True
    with prev have "rfold f [0..<n] st = Inl e" by blast
    then have "rfold f [0..<Suc n] st = Inl e"
      by (simp add: rfold_append rbind_def)
    with True show ?thesis
      using less_Suc_eq by auto
  next
    case False
    with prev obtain st1 where 1: "rfold f [0..<n] st = Inr st1" "I n st1"
      by blast
    have eq: "rfold f [0..<Suc n] st = f n st1"
      using 1 by (simp add: rfold_append rbind_def split: sum.splits)
    from Suc.prems [of n st1] 1
    have "(\<not> bad n \<and> (\<exists>st'. f n st1 = Inr st' \<and> I (Suc n) st')) \<or> (bad n \<and> f n st1 = Inl e)"
      by simp
    then show ?thesis
      using False eq by (auto simp: less_Suc_eq)
  qed
qed

lemma built_uncompressed:
  "built s2 N st \<Longrightarrow>
   built s2 N (st\<lparr>var_to_HRU_uncompressed_b := a, var_cell_count_uncompressed := b\<rparr>)"
  by (simp add: built_def cell_built_def)

lemma cell_step_row_inv:
  assumes inv: "row_inv s2 N n_nm M c u st" and s2: "s2 = s ^ 2" and pos: "0 < s2"
    and yx: "y < length gmask" "x < length (gmask ! y)"
    and u: "u < M"
    and c: "\<not> gmask ! y ! x \<Longrightarrow> c < n_nm \<and> c * s2 + s2 \<le> N"
    and lens: "length (cell_block farms s y x) = s2" "length (cell_block lu s y x) = s2"
  shows "(\<not> bad_cell lu gmask s y x \<and>
          (\<exists>st'. cell_step farms lu gmask s y x st = Inr st' \<and>
             row_inv s2 N n_nm M (c + unmasked [gmask ! y ! x]) (Suc u) st')) \<or>
         (bad_cell lu gmask s y x \<and> cell_step farms lu gmask s y x st = Inl AssertionError)"
proof -
  note R = inv [unfolded row_inv_def]
  show ?thesis
  proof (cases "gmask ! y ! x")
    case True
    then have "cell_step farms lu gmask s y x st =
        Inr (st\<lparr>var_to_HRU_uncompressed_b := (var_to_HRU_uncompressed_b st)[u := int (j_b st)],
                var_cell_count_uncompressed := u + 1\<rparr>)"
      using yx u R by (simp add: cell_step_def rbind_def Let_def)
    moreover have "row_inv s2 N n_nm M (c + unmasked [gmask ! y ! x]) (Suc u)
        (st\<lparr>var_to_HRU_uncompressed_b := (var_to_HRU_uncompressed_b st)[u := int (j_b st)],
                var_cell_count_uncompressed := u + 1\<rparr>)"
      using R True built_uncompressed [of s2 N st] by (simp add: row_inv_def unmasked_def)
    ultimately show ?thesis
      using True by (simp add: bad_cell_def)
  next
    case False
    show ?thesis
    proof (cases "\<forall>c \<in> set (cell_block lu s y x). land_use_domain c")
      case dom: True
      have "var_cell_count_compressed st < length (var_to_HRU_b st)"
        and "var_cell_count_compressed st * s2 + s2 \<le> N"
        using c [OF False] R by simp_all
      from process_cell_built [where farms = farms, OF _ s2 pos this lens dom] R
      obtain st1 where p: "process_cell farms lu s y x st = Inr st1" and b1: "built s2 N st1"
        and c1: "var_cell_count_compressed st1 = Suc c"
        and v1: "length (var_to_HRU_b st1) = n_nm"
        and w1: "var_to_HRU_uncompressed_b st1 = var_to_HRU_uncompressed_b st"
        and u1: "var_cell_count_uncompressed st1 = u"
        by auto
      have "cell_step farms lu gmask s y x st =
        Inr (st1\<lparr>var_to_HRU_uncompressed_b := (var_to_HRU_uncompressed_b st1)[u := int (j_b st1)],
                var_cell_count_uncompressed := u + 1\<rparr>)"
        using yx u R False p w1 u1 by (simp add: cell_step_def rbind_def Let_def)
      moreover have "row_inv s2 N n_nm M (c + unmasked [gmask ! y ! x]) (Suc u)
        (st1\<lparr>var_to_HRU_uncompressed_b := (var_to_HRU_uncompressed_b st1)[u := int (j_b st1)],
                var_cell_count_uncompressed := u + 1\<rparr>)"
        using R False built_uncompressed [OF b1] c1 v1 w1 by (simp add: row_inv_def unmasked_def)
      ultimately show ?thesis
        using dom by (simp add: bad_cell_def)
    next
      case nodom: False
      then have "process_cell farms lu s y x st = Inl AssertionError"
        by (simp add: process_cell_def Let_def)
      then have "cell_step farms lu gmask s y x st = Inl AssertionError"
        using yx False by (simp add: cell_step_def rbind_def)
      then show ?thesis
        using False nodom by (simp add: bad_cell_def)
    qed
  qed
qed

lemma unmasked_append: "unmasked (a @ b) = unmasked a + unmasked b"
  by (simp add: unmasked_def)

lemma unmasked_take_Suc:
  "x < length row \<Longrightarrow> unmasked (take (Suc x) row) = unmasked (take x row) + unmasked [row ! x]"
  by (simp add: take_Suc_conv_app_nth unmasked_append)

lemma unmasked_take_less:
  assumes "x < length row" "\<not> row ! x"
  shows "unmasked (take x row) < unmasked row"
proof -
  have "unmasked row = unmasked (take (Suc x) row @ drop (Suc x) row)"
    by simp
  also have "\<dots> = unmasked (take x row) + unmasked [row ! x] + unmasked (drop (Suc x) row)"
    using assms(1) by (simp only: unmasked_append unmasked_take_Suc)
  finally show ?thesis
    using assms(2) by (simp add: unmasked_def)
qed

lemma concat_take_Suc:
  "y < length g \<Longrightarrow> concat (take (Suc y) g) = concat (take y g) @ g ! y"
  by (simp add: take_Suc_conv_app_nth)

lemma concat_take_le:
  assumes "y < length g"
  shows "length (concat (take y g)) + length (g ! y) \<le> length (concat g)"
    and "unmasked (concat (take y g)) + unmasked (g ! y) \<le> unmasked (concat g)"
proof -
  have g: "concat g = concat (take (Suc y) g) @ concat (drop (Suc y) g)"
    by (metis append_take_drop_id concat_append)
  show "length (concat (take y g)) + length (g ! y) \<le> length (concat g)"
    using assms by (subst g) (simp add: concat_take_Suc)
  show "unmasked (concat (take y g)) + unmasked (g ! y) \<le> unmasked (concat g)"
    using assms by (subst g) (simp add: concat_take_Suc unmasked_append)
qed

lemma sum_list_map_const:
  "\<forall>x \<in> set xs. f x = c \<Longrightarrow> sum_list (map f xs) = length xs * c"
  for c :: nat
  by (induction xs) simp_all

lemma length_concat_rectangular:
  assumes "rectangular a h w"
  shows "length (concat a) = h * w"
proof -
  have "\<forall>row \<in> set a. length row = w"
    using assms by (simp add: rectangular_def)
  then have "sum_list (map length a) = length a * w"
    by (rule sum_list_map_const)
  then show ?thesis
    using assms by (simp add: length_concat rectangular_def)
qed

lemma length_cell_block:
  assumes "rectangular a (h * s) (w * s)" "y < h" "x < w"
  shows "length (cell_block a s y x) = s ^ 2"
proof -
  let ?rows = "take s (drop (y * s) a)"
  have "Suc y * s \<le> h * s" "Suc x * s \<le> w * s"
    using assms(2,3) by (simp_all only: Suc_leI mult_le_mono1)
  then have ys: "y * s + s \<le> length a" and xs: "\<forall>row \<in> set a. x * s + s \<le> length row"
    using assms(1) by (simp_all add: rectangular_def)
  have len: "length ?rows = s"
    using ys by simp
  have "set ?rows \<subseteq> set a"
    by (meson set_take_subset set_drop_subset subset_trans)
  then have "\<forall>row \<in> set ?rows. x * s + s \<le> length row"
    using xs by blast
  then have "\<forall>row \<in> set ?rows. length (take s (drop (x * s) row)) = s"
    by (auto simp: min_def)
  then have "sum_list (map (\<lambda>row. length (take s (drop (x * s) row))) ?rows) = length ?rows * s"
    by (rule sum_list_map_const)
  then show ?thesis
    using len by (simp add: cell_block_def length_concat comp_def power2_eq_square)
qed

lemma row_built:
  assumes inv: "row_inv s2 N n_nm M cy uy st" and s2: "s2 = s ^ 2" and pos: "0 < s2"
    and y: "y < length gmask" and row: "length (gmask ! y) = xsize"
    and ub: "uy + xsize \<le> M" and cb: "cy + unmasked (gmask ! y) \<le> n_nm"
    and N: "n_nm * s2 \<le> N"
    and lens: "\<forall>x < xsize. length (cell_block farms s y x) = s2 \<and>
                           length (cell_block lu s y x) = s2"
  shows "((\<forall>x < xsize. \<not> bad_cell lu gmask s y x) \<and>
          (\<exists>st'. rfold (cell_step farms lu gmask s y) [0..<xsize] st = Inr st' \<and>
             row_inv s2 N n_nm M (cy + unmasked (gmask ! y)) (uy + xsize) st')) \<or>
         ((\<exists>x < xsize. bad_cell lu gmask s y x) \<and>
          rfold (cell_step farms lu gmask s y) [0..<xsize] st = Inl AssertionError)"
proof -
  define I where "I = (\<lambda>x st. row_inv s2 N n_nm M (cy + unmasked (take x (gmask ! y))) (uy + x) st)"
  have init: "I 0 st"
    using inv by (simp add: I_def unmasked_def)
  have step: "(\<not> bad_cell lu gmask s y x \<and>
                (\<exists>st'. cell_step farms lu gmask s y x st = Inr st' \<and> I (Suc x) st')) \<or>
              (bad_cell lu gmask s y x \<and> cell_step farms lu gmask s y x st = Inl AssertionError)"
    if x: "x < xsize" and i: "I x st" for x st
  proof -
    have xr: "x < length (gmask ! y)"
      using x row by simp
    have c: "cy + unmasked (take x (gmask ! y)) < n_nm \<and>
             (cy + unmasked (take x (gmask ! y))) * s2 + s2 \<le> N" if "\<not> gmask ! y ! x"
    proof -
      have lt: "cy + unmasked (take x (gmask ! y)) < n_nm"
        using unmasked_take_less [OF xr that] cb by simp
      then have "Suc (cy + unmasked (take x (gmask ! y))) * s2 \<le> n_nm * s2"
        by (simp only: Suc_leI mult_le_mono1)
      with lt N show ?thesis by simp
    qed
    have "uy + x < M"
      using x ub by simp
    from cell_step_row_inv [OF i [unfolded I_def] s2 pos y xr this c] lens x
    show ?thesis
      by (simp add: I_def unmasked_take_Suc [OF xr] add.assoc)
  qed
  from rfold_upt_or_error [of I st xsize "\<lambda>x. bad_cell lu gmask s y x"
      "cell_step farms lu gmask s y" AssertionError, OF init step]
  show ?thesis
    using row by (simp add: I_def)
qed

lemma loops_built:
  assumes rg: "rectangular gmask ysize xsize"
    and rf: "rectangular farms (ysize * s) (xsize * s)"
    and rl: "rectangular lu (ysize * s) (xsize * s)"
    and pos: "0 < s"
    and N: "N = length (concat gmask) * s ^ 2"
    and init: "row_inv (s ^ 2) N (unmasked (concat gmask)) (length (concat gmask)) 0 0 st0"
  shows "((\<forall>y < ysize. \<forall>x < xsize. \<not> bad_cell lu gmask s y x) \<and>
          (\<exists>st. rfold (\<lambda>y. rfold (cell_step farms lu gmask s y) [0..<xsize]) [0..<ysize] st0 = Inr st \<and>
             row_inv (s ^ 2) N (unmasked (concat gmask)) (length (concat gmask))
               (unmasked (concat gmask)) (length (concat gmask)) st)) \<or>
         ((\<exists>y < ysize. \<exists>x < xsize. bad_cell lu gmask s y x) \<and>
          rfold (\<lambda>y. rfold (cell_step farms lu gmask s y) [0..<xsize]) [0..<ysize] st0
            = Inl AssertionError)"
proof -
  define s2 where "s2 = s ^ 2"
  define nm where "nm = unmasked (concat gmask)"
  define M where "M = length (concat gmask)"
  define I where "I = (\<lambda>y st. row_inv s2 N nm M (unmasked (concat (take y gmask)))
      (length (concat (take y gmask))) st)"
  have pos2: "0 < s2"
    using pos by (simp add: s2_def)
  have leny: "length gmask = ysize" and lenx: "\<forall>row \<in> set gmask. length row = xsize"
    using rg by (simp_all add: rectangular_def)
  have "nm \<le> M"
    by (simp add: nm_def M_def unmasked_def)
  then have nmN: "nm * s2 \<le> N"
    by (simp add: N M_def s2_def)
  have init': "I 0 st0"
    using init by (simp add: I_def s2_def nm_def M_def unmasked_def)
  have step: "(\<not> (\<exists>x < xsize. bad_cell lu gmask s y x) \<and>
                (\<exists>st'. rfold (cell_step farms lu gmask s y) [0..<xsize] st = Inr st' \<and> I (Suc y) st')) \<or>
              ((\<exists>x < xsize. bad_cell lu gmask s y x) \<and>
                rfold (cell_step farms lu gmask s y) [0..<xsize] st = Inl AssertionError)"
    if y: "y < ysize" and i: "I y st" for y st
  proof -
    have yl: "y < length gmask"
      using y leny by simp
    then have row: "length (gmask ! y) = xsize"
      using lenx by simp
    have ub: "length (concat (take y gmask)) + xsize \<le> M"
      using concat_take_le(1) [OF yl] row by (simp add: M_def)
    have cb: "unmasked (concat (take y gmask)) + unmasked (gmask ! y) \<le> nm"
      using concat_take_le(2) [OF yl] by (simp add: nm_def)
    have lens: "\<forall>x < xsize. length (cell_block farms s y x) = s2 \<and>
                           length (cell_block lu s y x) = s2"
      using length_cell_block [OF rf y] length_cell_block [OF rl y] by (simp add: s2_def)
    from row_built [OF i [unfolded I_def] s2_def pos2 yl row ub cb nmN lens]
    show ?thesis
      using yl by (auto simp: I_def concat_take_Suc unmasked_append row)
  qed
  from rfold_upt_or_error [of I st0 ysize "\<lambda>y. \<exists>x < xsize. bad_cell lu gmask s y x"
      "\<lambda>y. rfold (cell_step farms lu gmask s y) [0..<xsize]" AssertionError, OF init' step]
  show ?thesis
    using leny by (simp add: I_def s2_def nm_def M_def)
qed

lemma unmasked_mask_sum: "length m - mask_sum m = unmasked m"
proof -
  have "length (filter (\<lambda>b. b) m) + length (filter (\<lambda>b. \<not> b) m) = length m"
    by (rule sum_length_filter_compl)
  then show ?thesis
    by (simp add: mask_sum_def unmasked_def)
qed

lemma sum_list_slice_nth:
  fixes xs :: "int list"
  assumes "a \<le> b" "b \<le> length xs"
  shows "sum_list (take (b - a) (drop a xs)) = (\<Sum>u = a..<b. xs ! u)"
proof -
  have "sum_list (take (b - a) (drop a xs)) = (\<Sum>i = 0..<b - a. take (b - a) (drop a xs) ! i)"
    using assms by (simp add: sum_list_sum_nth min_absorb2)
  also have "\<dots> = (\<Sum>i = 0..<b - a. xs ! (i + a))"
    using assms by (intro sum.cong) (simp_all add: add.commute)
  also have "\<dots> = (\<Sum>u = 0 + a..<(b - a) + a. xs ! u)"
    by (rule sum.shift_bounds_nat_ivl [symmetric])
  finally show ?thesis
    using assms by simp
qed

subsection \<open>The result\<close>

lemma create_HRUs_numba_cases:
  assumes rg: "rectangular gmask ysize xsize"
    and rf: "rectangular farms (ysize * s) (xsize * s)"
    and rl: "rectangular lu (ysize * s) (xsize * s)"
    and pos: "0 < s"
  shows "((\<forall>y < ysize. \<forall>x < xsize. \<not> bad_cell lu gmask s y x) \<and>
          (\<exists>st. built (s ^ 2) (length (concat farms)) st \<and>
             var_cell_count_compressed st = unmasked (concat gmask) \<and>
             length (var_to_HRU_b st) = unmasked (concat gmask) \<and>
             create_HRUs_numba farms lu gmask s =
               Inr \<lparr>land_use_type = take (j_b st) (land_use_array st),
                    land_use_ratio = map (\<lambda>z. real_of_int z / real (s ^ 2))
                                       (take (j_b st) (land_use_size st)),
                    land_owners = take (j_b st) (land_use_owner st),
                    HRU_to_grid = take (j_b st) (HRU_to_grid_b st),
                    var_to_HRU = var_to_HRU_b st,
                    var_to_HRU_uncompressed = var_to_HRU_uncompressed_b st,
                    unmerged_HRU_indices =
                      take (var_cell_count_compressed st * s ^ 2) (unmerged_HRU_indices_b st)\<rparr>)) \<or>
         ((\<exists>y < ysize. \<exists>x < xsize. bad_cell lu gmask s y x) \<and>
          create_HRUs_numba farms lu gmask s = Inl AssertionError)"
proof -
  define N where "N = length (concat farms)"
  define M where "M = length (concat gmask)"
  define nm where "nm = unmasked (concat gmask)"
  define st0 where "st0 = \<lparr>var_to_HRU_b = replicate (M - mask_sum (concat gmask)) (- 1),
                   var_to_HRU_uncompressed_b = replicate M (- 1),
                   HRU_to_grid_b = replicate N (- 1),
                   land_use_array = replicate N (- 1),
                   land_use_size = replicate N (- 1),
                   land_use_owner = replicate N (- 1),
                   unmerged_HRU_indices_b = replicate N 4294967295,
                   j_b = 0, var_cell_count_compressed = 0, l_b = 0,
                   var_cell_count_uncompressed = 0\<rparr>"
  define finish where "finish = (\<lambda>st :: builder.
              (let sizes = take (j_b st) (land_use_size st) in
               if sum_list sizes \<noteq> int ((M - mask_sum (concat gmask)) * s ^ 2)
               then Inl AssertionError
               else Inr \<lparr>land_use_type = take (j_b st) (land_use_array st),
                         land_use_ratio = map (\<lambda>z. real_of_int z / real (s ^ 2)) sizes,
                         land_owners = take (j_b st) (land_use_owner st),
                         HRU_to_grid = take (j_b st) (HRU_to_grid_b st),
                         var_to_HRU = var_to_HRU_b st,
                         var_to_HRU_uncompressed = var_to_HRU_uncompressed_b st,
                         unmerged_HRU_indices =
                           take (var_cell_count_compressed st * s ^ 2)
                                (unmerged_HRU_indices_b st)\<rparr>))"
  define loops where "loops = (\<lambda>ys xs. rfold (\<lambda>y. rfold (cell_step farms lu gmask s y) [0..<xs])
      [0..<ys] st0)"
  have M: "M = ysize * xsize"
    using length_concat_rectangular [OF rg] by (simp add: M_def)
  have Nf: "N = (ysize * s) * (xsize * s)"
    using length_concat_rectangular [OF rf] by (simp add: N_def)
  have Nl: "length (concat lu) = N"
    using length_concat_rectangular [OF rl] Nf by simp
  have NM: "N = M * s ^ 2"
    by (simp add: Nf M power2_eq_square)
  have "loops (fst (shape gmask)) (snd (shape gmask)) = loops ysize xsize"
  proof (cases "gmask = []")
    case True
    then have "ysize = 0"
      using rg by (simp add: rectangular_def)
    with True show ?thesis
      by (simp add: shape_def loops_def)
  next
    case False
    then have "hd gmask \<in> set gmask"
      by simp
    then have "length (hd gmask) = xsize"
      using rg by (simp add: rectangular_def)
    with False rg show ?thesis
      by (simp add: shape_def rectangular_def)
  qed
  moreover have "create_HRUs_numba farms lu gmask s =
      rbind (loops (fst (shape gmask)) (snd (shape gmask))) finish"
    unfolding create_HRUs_numba_def Let_def loops_def finish_def st0_def
      N_def [symmetric] M_def [symmetric]
    using NM Nl by (simp add: case_prod_beta power2_eq_square)
  ultimately have create: "create_HRUs_numba farms lu gmask s = rbind (loops ysize xsize) finish"
    by simp
  have built0: "built (s ^ 2) N st0"
    by (simp add: built_def st0_def cell_start_def)
  have init: "row_inv (s ^ 2) N (unmasked (concat gmask)) (length (concat gmask)) 0 0 st0"
    using built0 by (simp add: row_inv_def) (simp add: st0_def M_def unmasked_mask_sum)
  have NM': "N = length (concat gmask) * s ^ 2"
    using NM by (simp add: M_def)
  from loops_built [OF rg rf rl pos NM' init]
  consider (ok) st where "\<forall>y < ysize. \<forall>x < xsize. \<not> bad_cell lu gmask s y x"
      "rfold (\<lambda>y. rfold (cell_step farms lu gmask s y) [0..<xsize]) [0..<ysize] st0 = Inr st"
      "row_inv (s ^ 2) N (unmasked (concat gmask)) (length (concat gmask))
               (unmasked (concat gmask)) (length (concat gmask)) st"
    | (bad) "\<exists>y < ysize. \<exists>x < xsize. bad_cell lu gmask s y x"
      "rfold (\<lambda>y. rfold (cell_step farms lu gmask s y) [0..<xsize]) [0..<ysize] st0
            = Inl AssertionError"
    by blast
  then show ?thesis
  proof cases
    case ok
    note l = ok(2) and r = ok(3)
    note R = r [unfolded row_inv_def]
    then have b: "built (s ^ 2) N st" by simp
    note B = b [unfolded built_def]
    have "j_b st \<le> unmasked (concat gmask) * s ^ 2"
      using B R by simp
    moreover have "unmasked (concat gmask) \<le> M"
      by (simp add: unmasked_def M_def)
    then have "unmasked (concat gmask) * s ^ 2 \<le> M * s ^ 2"
      by (rule mult_le_mono1)
    moreover have "length (land_use_size st) = N"
      using B by simp
    ultimately have "j_b st \<le> length (land_use_size st)"
      using NM by linarith
    then have "sum_list (take (j_b st - 0) (drop 0 (land_use_size st)))
        = (\<Sum>u = 0..<j_b st. land_use_size st ! u)"
      by (intro sum_list_slice_nth) simp_all
    then have "sum_list (take (j_b st) (land_use_size st)) =
        int ((M - mask_sum (concat gmask)) * s ^ 2)"
      using B R by (simp add: unmasked_mask_sum M_def)
    then have "finish st = Inr \<lparr>land_use_type = take (j_b st) (land_use_array st),
                    land_use_ratio = map (\<lambda>z. real_of_int z / real (s ^ 2))
                                       (take (j_b st) (land_use_size st)),
                    land_owners = take (j_b st) (land_use_owner st),
                    HRU_to_grid = take (j_b st) (HRU_to_grid_b st),
                    var_to_HRU = var_to_HRU_b st,
                    var_to_HRU_uncompressed = var_to_HRU_uncompressed_b st,
                    unmerged_HRU_indices =
                      take (var_cell_count_compressed st * s ^ 2) (unmerged_HRU_indices_b st)\<rparr>"
      by (simp add: finish_def Let_def)
    then have "create_HRUs_numba farms lu gmask s =
               Inr \<lparr>land_use_type = take (j_b st) (land_use_array st),
                    land_use_ratio = map (\<lambda>z. real_of_int z / real (s ^ 2))
                                       (take (j_b st) (land_use_size st)),
                    land_owners = take (j_b st) (land_use_owner st),
                    HRU_to_grid = take (j_b st) (HRU_to_grid_b st),
                    var_to_HRU = var_to_HRU_b st,
                    var_to_HRU_uncompressed = var_to_HRU_uncompressed_b st,
                    unmerged_HRU_indices =
                      take (var_cell_count_compressed st * s ^ 2) (unmerged_HRU_indices_b st)\<rparr>"
      using l create by (simp add: loops_def rbind_def)
    moreover have "built (s ^ 2) (length (concat farms)) st"
      using b by (simp add: N_def)
    ultimately show ?thesis
      using ok(1) R by blast
  next
    case bad
    then show ?thesis
      using create by (simp add: loops_def rbind_def)
  qed
qed

lemma create_HRUs_numba_result:
  assumes rg: "rectangular gmask ysize xsize"
    and rf: "rectangular farms (ysize * s) (xsize * s)"
    and rl: "rectangular lu (ysize * s) (xsize * s)"
    and pos: "0 < s"
    and res: "create_HRUs_numba farms lu gmask s = Inr hru"
  shows "\<exists>st. built (s ^ 2) (length (concat farms)) st \<and>
     var_cell_count_compressed st = compressed_size gmask \<and>
     length (var_to_HRU_b st) = compressed_size gmask \<and>
     j_b st \<le> length (concat farms) \<and>
     compressed_size gmask * s ^ 2 \<le> length (concat farms) \<and>
     land_use_ratio hru = map (\<lambda>z. real_of_int z / real (s ^ 2)) (take (j_b st) (land_use_size st)) \<and>
     HRU_to_grid hru = take (j_b st) (HRU_to_grid_b st) \<and>
     var_to_HRU hru = var_to_HRU_b st \<and>
     unmerged_HRU_indices hru =
       take (var_cell_count_compressed st * s ^ 2) (unmerged_HRU_indices_b st)"
proof -
  from create_HRUs_numba_cases [OF rg rf rl pos] res
  obtain st where b: "built (s ^ 2) (length (concat farms)) st"
    and c: "var_cell_count_compressed st = unmasked (concat gmask)"
    and v: "length (var_to_HRU_b st) = unmasked (concat gmask)"
    and hru: "hru = \<lparr>land_use_type = take (j_b st) (land_use_array st),
                    land_use_ratio = map (\<lambda>z. real_of_int z / real (s ^ 2))
                                       (take (j_b st) (land_use_size st)),
                    land_owners = take (j_b st) (land_use_owner st),
                    HRU_to_grid = take (j_b st) (HRU_to_grid_b st),
                    var_to_HRU = var_to_HRU_b st,
                    var_to_HRU_uncompressed = var_to_HRU_uncompressed_b st,
                    unmerged_HRU_indices =
                      take (var_cell_count_compressed st * s ^ 2) (unmerged_HRU_indices_b st)\<rparr>"
    by auto
  note B = b [unfolded built_def]
  have cs: "compressed_size gmask = unmasked (concat gmask)"
    by (simp add: compressed_size_def mask_flat_def unmasked_mask_sum)
  have "length (concat farms) = (ysize * s) * (xsize * s)" "length (concat gmask) = ysize * xsize"
    using length_concat_rectangular [OF rf] length_concat_rectangular [OF rg] by simp_all
  then have NM: "length (concat farms) = length (concat gmask) * s ^ 2"
    by (simp add: power2_eq_square)
  have "unmasked (concat gmask) \<le> length (concat gmask)"
    by (simp add: unmasked_def)
  then have "unmasked (concat gmask) * s ^ 2 \<le> length (concat gmask) * s ^ 2"
    by (rule mult_le_mono1)
  then have le: "compressed_size gmask * s ^ 2 \<le> length (concat farms)"
    using NM cs by simp
  moreover have "j_b st \<le> compressed_size gmask * s ^ 2"
    using B c cs by simp
  ultimately have "j_b st \<le> length (concat farms)"
    by linarith
  with b c v le show ?thesis
    by (intro exI [of _ st]) (simp add: hru cs)
qed

text \<open>
  The output of the builder over a mask with a non-masked cell has the form the converter
  expects: \<open>var_to_HRU\<close> is not empty and strictly increasing from above 0 (no unit range
  is empty), and its last entry is the number of units.
\<close>

lemma create_HRUs_numba_ranges:
  assumes rg: "rectangular gmask ysize xsize"
    and rf: "rectangular farms (ysize * s) (xsize * s)"
    and rl: "rectangular lu (ysize * s) (xsize * s)"
    and pos: "0 < s"
    and res: "create_HRUs_numba farms lu gmask s = Inr hru"
    and some: "0 < compressed_size gmask"
  shows "var_to_HRU hru \<noteq> [] \<and> sorted_wrt (<) (0 # var_to_HRU hru) \<and>
         last (var_to_HRU hru) = int (length (land_use_ratio hru))"
proof -
  from create_HRUs_numba_result [OF rg rf rl pos res]
  obtain st where b: "built (s ^ 2) (length (concat farms)) st"
    and c: "var_cell_count_compressed st = compressed_size gmask"
    and lv: "length (var_to_HRU_b st) = compressed_size gmask"
    and jN: "j_b st \<le> length (concat farms)"
    and ratio: "land_use_ratio hru =
        map (\<lambda>z. real_of_int z / real (s ^ 2)) (take (j_b st) (land_use_size st))"
    and v: "var_to_HRU hru = var_to_HRU_b st"
    by blast
  note B = b [unfolded built_def]
  define w where "w = var_to_HRU_b st"
  have ne: "w \<noteq> []"
    using lv some by (auto simp: w_def)
  define zs where "zs = 0 # w"
  have "zs ! i < zs ! Suc i" if "Suc i < length zs" for i
  proof -
    have "cell_built (s ^ 2) st i"
      using B that c lv by (simp add: w_def zs_def)
    then show ?thesis
      by (simp add: cell_built_def cell_start_nth w_def zs_def)
  qed
  moreover have "transp ((<) :: int \<Rightarrow> int \<Rightarrow> bool)"
    by (rule transp_on_less)
  ultimately have "sorted_wrt (<) zs"
    by (simp only: sorted_wrt_iff_nth_Suc_transp) simp
  then have sorted: "sorted_wrt (<) (0 # w)"
    by (simp only: zs_def)
  have "last w = w ! (length w - 1)"
    using ne by (rule last_conv_nth)
  also have "\<dots> = cell_start w (length w)"
    using ne by (simp add: cell_start_def)
  also have "\<dots> = int (j_b st)"
    using B c lv by (simp add: w_def)
  also have "\<dots> = int (length (land_use_ratio hru))"
    using B jN by (simp add: ratio)
  finally show ?thesis
    using ne sorted by (simp add: v w_def)
qed

lemma sum_list_ratio:
  "sum_list (map (\<lambda>z. real_of_int z / real n) xs) = real_of_int (sum_list xs) / real n"
  by (induction xs) (simp_all add: add_divide_distrib)

text \<open>
  C4. The inputs have the shapes the builder expects: the mask has \<open>ysize\<close> rows and
  \<open>xsize\<close> columns, both rasters have \<open>scaling\<close> times as many of each, and \<open>scaling\<close>
  is positive. Whenever the builder returns, \<open>var_to_HRU\<close> has one entry per non-masked
  grid cell, the sum of \<open>land_use_ratio\<close> over the unit range of every grid cell is 1, and
  the sub-cell counts of all units (ratio times \<open>scaling^2\<close>) add up to the number of
  non-masked cells times \<open>scaling^2\<close>. (Ratios are exact reals.)
\<close>

theorem create_HRUs_numba_ratio_sums:
  assumes rg: "rectangular gmask ysize xsize"
    and rf: "rectangular farms (ysize * s) (xsize * s)"
    and rl: "rectangular lu (ysize * s) (xsize * s)"
    and pos: "0 < s"
    and res: "create_HRUs_numba farms lu gmask s = Inr hru"
  shows "length (var_to_HRU hru) = compressed_size gmask \<and>
         (\<forall>i < length (var_to_HRU hru). cell_ratio_sum hru i = 1) \<and>
         sum_list (map (\<lambda>r. r * real (s ^ 2)) (land_use_ratio hru))
           = real (compressed_size gmask * s ^ 2)"
proof -
  from create_HRUs_numba_result [OF assms]
  obtain st where b: "built (s ^ 2) (length (concat farms)) st"
    and c: "var_cell_count_compressed st = compressed_size gmask"
    and lv: "length (var_to_HRU_b st) = compressed_size gmask"
    and jN: "j_b st \<le> length (concat farms)"
    and ratio: "land_use_ratio hru =
        map (\<lambda>z. real_of_int z / real (s ^ 2)) (take (j_b st) (land_use_size st))"
    and v: "var_to_HRU hru = var_to_HRU_b st"
    by blast
  note B = b [unfolded built_def]
  define sizes where "sizes = take (j_b st) (land_use_size st)"
  have ls: "length sizes = j_b st"
    using B jN by (simp add: sizes_def)
  have s2: "real (s ^ 2) \<noteq> 0"
    using pos by simp
  have cell: "cell_ratio_sum hru i = 1" if i: "i < length (var_to_HRU hru)" for i
  proof -
    let ?lo = "cell_start (var_to_HRU_b st) i" and ?hi = "var_to_HRU_b st ! i"
    have "cell_built (s ^ 2) st i"
      using B i c lv v by simp
    note C = this [unfolded cell_built_def]
    have bnd: "0 \<le> ?lo" "?lo < ?hi" "?hi \<le> int (j_b st)"
      using C by simp_all
    have le: "nat ?lo \<le> nat ?hi" "nat ?hi \<le> length sizes"
      using bnd ls by linarith+
    define xs where "xs = take (nat ?hi - nat ?lo) (drop (nat ?lo) sizes)"
    have slice: "py_slice (land_use_ratio hru) ?lo ?hi = map (\<lambda>z. real_of_int z / real (s ^ 2)) xs"
      using bnd ls
      by (simp add: py_slice_nat ratio sizes_def [symmetric] xs_def take_map drop_map)
    have "sum_list xs = (\<Sum>u = nat ?lo..<nat ?hi. sizes ! u)"
      unfolding xs_def using le by (rule sum_list_slice_nth)
    also have "\<dots> = (\<Sum>u = nat ?lo..<nat ?hi. land_use_size st ! u)"
      using le ls by (intro sum.cong) (simp_all add: sizes_def)
    also have "\<dots> = int (s ^ 2)"
      using C by simp
    finally have xs: "sum_list xs = int (s ^ 2)" .
    have "sum_list (map (\<lambda>z. real_of_int z / real (s ^ 2)) xs)
        = real_of_int (sum_list xs) / real (s ^ 2)"
      by (rule sum_list_ratio)
    also have "\<dots> = real_of_int (int (s ^ 2)) / real (s ^ 2)"
      by (simp only: xs)
    also have "\<dots> = 1"
      using s2 by simp
    finally show ?thesis
      by (simp add: cell_ratio_sum_def v slice)
  qed
  have "sum_list (take (j_b st - 0) (drop 0 (land_use_size st)))
        = (\<Sum>u = 0..<j_b st. land_use_size st ! u)"
    using B jN by (intro sum_list_slice_nth) simp_all
  then have tot: "sum_list sizes = int (compressed_size gmask * s ^ 2)"
    using B c by (simp add: sizes_def)
  have "map (\<lambda>r. r * real (s ^ 2)) (land_use_ratio hru) = map real_of_int sizes"
    using s2 by (simp add: ratio sizes_def [symmetric])
  moreover have "sum_list (map real_of_int sizes) = real_of_int (sum_list sizes)"
    by (induction sizes) simp_all
  ultimately have "sum_list (map (\<lambda>r. r * real (s ^ 2)) (land_use_ratio hru))
           = real (compressed_size gmask * s ^ 2)"
    using tot by simp
  with cell lv v show ?thesis
    by simp
qed

theorem create_HRUs_numba_ratio_sums_witness:
  "rectangular [[False]] 1 1 \<and> rectangular [[1, 1], [- 1, - 1 :: int]] (1 * 2) (1 * 2) \<and>
   rectangular [[0, 0], [1, 1 :: int]] (1 * 2) (1 * 2) \<and> (0 :: nat) < 2 \<and>
   create_HRUs_numba [[1, 1], [- 1, - 1]] [[0, 0], [1, 1]] [[False]] 2 =
     Inr \<lparr>land_use_type = [0, 1], land_use_ratio = [1 / 2, 1 / 2],
           land_owners = [1, - 1], HRU_to_grid = [0, 0], var_to_HRU = [2],
           var_to_HRU_uncompressed = [2], unmerged_HRU_indices = [0, 0, 1, 1]\<rparr> \<and>
   cell_ratio_sum \<lparr>land_use_type = [0, 1], land_use_ratio = [1 / 2, 1 / 2],
           land_owners = [1, - 1], HRU_to_grid = [0, 0], var_to_HRU = [2],
           var_to_HRU_uncompressed = [2], unmerged_HRU_indices = [0, 0, 1, 1]\<rparr> 0 = 1"
  (is "_ \<and> _ \<and> _ \<and> _ \<and> _ = Inr ?h \<and> _")
proof -
  have 1: "rectangular [[False]] 1 1" by (simp add: rectangular_def)
  have 2: "rectangular [[1, 1], [- 1, - 1 :: int]] (1 * 2) (1 * 2)" by (simp add: rectangular_def)
  have 3: "rectangular [[0, 0], [1, 1 :: int]] (1 * 2) (1 * 2)" by (simp add: rectangular_def)
  have 4: "(0 :: nat) < 2" by simp
  have 5: "create_HRUs_numba [[1, 1], [- 1, - 1]] [[0, 0], [1, 1]] [[False]] 2 = Inr ?h"
    by code_simp
  from create_HRUs_numba_ratio_sums [OF 1 2 3 4 5]
  have "cell_ratio_sum ?h 0 = 1" by simp
  with 1 2 3 4 5 show ?thesis by blast
qed

text \<open>
  C9. For inputs of those shapes, whenever the builder returns:
  \<open>unmerged_HRU_indices\<close> has \<open>scaling^2\<close> entries per non-masked grid cell, and for every
  grid cell \<open>i\<close> each entry \<open>k\<close> of the cell's block is a unit of the cell's own range
  \<open>[prev, var_to_HRU[i])\<close>, with \<open>HRU_to_grid\<close> of that unit equal to \<open>i\<close>.
\<close>

theorem create_HRUs_numba_cell_local:
  assumes rg: "rectangular gmask ysize xsize"
    and rf: "rectangular farms (ysize * s) (xsize * s)"
    and rl: "rectangular lu (ysize * s) (xsize * s)"
    and pos: "0 < s"
    and res: "create_HRUs_numba farms lu gmask s = Inr hru"
  shows "length (unmerged_HRU_indices hru) = length (var_to_HRU hru) * s ^ 2 \<and>
     (\<forall>i < length (var_to_HRU hru). \<forall>k. i * s ^ 2 \<le> k \<and> k < (i + 1) * s ^ 2 \<longrightarrow>
        cell_start (var_to_HRU hru) i \<le> unmerged_HRU_indices hru ! k \<and>
        unmerged_HRU_indices hru ! k < var_to_HRU hru ! i \<and>
        HRU_to_grid hru ! nat (unmerged_HRU_indices hru ! k) = int i)"
proof -
  from create_HRUs_numba_result [OF assms]
  obtain st where b: "built (s ^ 2) (length (concat farms)) st"
    and c: "var_cell_count_compressed st = compressed_size gmask"
    and lv: "length (var_to_HRU_b st) = compressed_size gmask"
    and jN: "j_b st \<le> length (concat farms)"
    and cN: "compressed_size gmask * s ^ 2 \<le> length (concat farms)"
    and h: "HRU_to_grid hru = take (j_b st) (HRU_to_grid_b st)"
    and v: "var_to_HRU hru = var_to_HRU_b st"
    and um: "unmerged_HRU_indices hru =
       take (var_cell_count_compressed st * s ^ 2) (unmerged_HRU_indices_b st)"
    by blast
  note B = b [unfolded built_def]
  have len: "length (unmerged_HRU_indices hru) = length (var_to_HRU hru) * s ^ 2"
    using B c cN lv by (simp add: um v)
  have loc: "cell_start (var_to_HRU hru) i \<le> unmerged_HRU_indices hru ! k \<and>
        unmerged_HRU_indices hru ! k < var_to_HRU hru ! i \<and>
        HRU_to_grid hru ! nat (unmerged_HRU_indices hru ! k) = int i"
    if i: "i < length (var_to_HRU hru)" and k: "i * s ^ 2 \<le> k \<and> k < (i + 1) * s ^ 2" for i k
  proof -
    let ?lo = "cell_start (var_to_HRU_b st) i" and ?hi = "var_to_HRU_b st ! i"
    have ic: "i < compressed_size gmask"
      using i lv v by simp
    then have "cell_built (s ^ 2) st i"
      using B c by simp
    note C = this [unfolded cell_built_def]
    have "Suc i * s ^ 2 \<le> compressed_size gmask * s ^ 2"
      using ic by (simp only: Suc_leI mult_le_mono1)
    then have kc: "k < var_cell_count_compressed st * s ^ 2"
      using k c by simp
    define u where "u = unmerged_HRU_indices_b st ! k"
    have u: "?lo \<le> u" "u < ?hi"
      using C k by (simp_all add: u_def)
    have bnd: "0 \<le> ?lo" "?lo < ?hi" "?hi \<le> int (j_b st)"
      using C by simp_all
    with u have "nat ?lo \<le> nat u" "nat u < nat ?hi" "nat u < j_b st"
      by linarith+
    then have "HRU_to_grid_b st ! nat u = int i" "take (j_b st) (HRU_to_grid_b st) ! nat u
        = HRU_to_grid_b st ! nat u"
      using C by simp_all
    then show ?thesis
      using u kc by (simp add: um v h u_def)
  qed
  from len loc show ?thesis
    by blast
qed

theorem create_HRUs_numba_cell_local_witness:
  "rectangular [[False]] 1 1 \<and> rectangular [[1, 1], [- 1, - 1 :: int]] (1 * 2) (1 * 2) \<and>
   rectangular [[0, 0], [1, 1 :: int]] (1 * 2) (1 * 2) \<and> (0 :: nat) < 2 \<and>
   create_HRUs_numba [[1, 1], [- 1, - 1]] [[0, 0], [1, 1]] [[False]] 2 =
     Inr \<lparr>land_use_type = [0, 1], land_use_ratio = [1 / 2, 1 / 2],
           land_owners = [1, - 1], HRU_to_grid = [0, 0], var_to_HRU = [2],
           var_to_HRU_uncompressed = [2], unmerged_HRU_indices = [0, 0, 1, 1]\<rparr> \<and>
   HRU_to_grid \<lparr>land_use_type = [0, 1], land_use_ratio = [1 / 2, 1 / 2],
           land_owners = [1, - 1], HRU_to_grid = [0, 0], var_to_HRU = [2],
           var_to_HRU_uncompressed = [2], unmerged_HRU_indices = [0, 0, 1, 1]\<rparr> !
     nat (unmerged_HRU_indices \<lparr>land_use_type = [0, 1], land_use_ratio = [1 / 2, 1 / 2],
           land_owners = [1, - 1], HRU_to_grid = [0, 0], var_to_HRU = [2],
           var_to_HRU_uncompressed = [2], unmerged_HRU_indices = [0, 0, 1, 1]\<rparr> ! 3) = int 0"
  (is "_ \<and> _ \<and> _ \<and> _ \<and> _ = Inr ?h \<and> _")
proof -
  have 1: "rectangular [[False]] 1 1" by (simp add: rectangular_def)
  have 2: "rectangular [[1, 1], [- 1, - 1 :: int]] (1 * 2) (1 * 2)" by (simp add: rectangular_def)
  have 3: "rectangular [[0, 0], [1, 1 :: int]] (1 * 2) (1 * 2)" by (simp add: rectangular_def)
  have 4: "(0 :: nat) < 2" by simp
  have 5: "create_HRUs_numba [[1, 1], [- 1, - 1]] [[0, 0], [1, 1]] [[False]] 2 = Inr ?h"
    by code_simp
  have "(0 :: nat) < length (var_to_HRU ?h)" "(0 :: nat) * 2 ^ 2 \<le> 3 \<and> (3 :: nat) < (0 + 1) * 2 ^ 2"
    by simp_all
  with create_HRUs_numba_cell_local [OF 1 2 3 4 5]
  have "HRU_to_grid ?h ! nat (unmerged_HRU_indices ?h ! 3) = int 0"
    by blast
  with 1 2 3 4 5 show ?thesis by blast
qed

text \<open>
  C5, as stated, fails. In one grid cell with scaling 2, farm 1 owns three sub-cells with
  the land-use codes 0, 1 and 0. The builder raises nothing: it returns the index
  structures, here with one unit of land-use code 0 and ratio \<open>3/4\<close> for the farm.
\<close>

theorem mixed_farm_counterexample:
  "create_HRUs_numba [[1, 1], [1, - 1]] [[0, 1], [0, 1]] [[False]] 2 =
     Inr \<lparr>land_use_type = [0, 1], land_use_ratio = [3 / 4, 1 / 4],
           land_owners = [1, - 1], HRU_to_grid = [0, 0], var_to_HRU = [2],
           var_to_HRU_uncompressed = [2], unmerged_HRU_indices = [0, 0, 0, 1]\<rparr>"
  by code_simp

text \<open>
  C5, amended. For inputs of the shapes the builder expects, the builder fails exactly
  when a non-masked grid cell holds a land-use code outside \<open>{0, 1, 4, 5}\<close>, and then with
  the assertion error of the domain check; in every other case it returns index
  structures, whatever land-use codes the sub-cells of one farm carry.
\<close>

theorem create_HRUs_numba_returns:
  assumes rg: "rectangular gmask ysize xsize"
    and rf: "rectangular farms (ysize * s) (xsize * s)"
    and rl: "rectangular lu (ysize * s) (xsize * s)"
    and pos: "0 < s"
  shows "if \<forall>y < ysize. \<forall>x < xsize.
             gmask ! y ! x \<or> (\<forall>c \<in> set (cell_block lu s y x). land_use_domain c)
         then \<exists>hru. create_HRUs_numba farms lu gmask s = Inr hru
         else create_HRUs_numba farms lu gmask s = Inl AssertionError"
  using create_HRUs_numba_cases [OF assms] unfolding bad_cell_def by auto

theorem create_HRUs_numba_returns_witness:
  "rectangular [[False]] 1 1 \<and> rectangular [[1, 1], [1, - 1 :: int]] (1 * 2) (1 * 2) \<and>
   rectangular [[0, 1], [0, 1 :: int]] (1 * 2) (1 * 2) \<and> (0 :: nat) < 2 \<and>
   (\<exists>hru. create_HRUs_numba [[1, 1], [1, - 1]] [[0, 1], [0, 1]] [[False]] 2 = Inr hru)"
proof -
  have 1: "rectangular [[False]] 1 1" by (simp add: rectangular_def)
  have 2: "rectangular [[1, 1], [1, - 1 :: int]] (1 * 2) (1 * 2)" by (simp add: rectangular_def)
  have 3: "rectangular [[0, 1], [0, 1 :: int]] (1 * 2) (1 * 2)" by (simp add: rectangular_def)
  have 4: "(0 :: nat) < 2" by simp
  have 5: "\<forall>y < (1 :: nat). \<forall>x < (1 :: nat).
      [[False]] ! y ! x \<or> (\<forall>c \<in> set (cell_block [[0, 1], [0, 1]] 2 y x). land_use_domain c)"
    by (simp add: cell_block_def land_use_domain_def)
  from create_HRUs_numba_returns [OF 1 2 3 4] 5
  have "\<exists>hru. create_HRUs_numba [[1, 1], [1, - 1]] [[0, 1], [0, 1]] [[False]] 2 = Inr hru"
    by simp
  with 1 2 3 4 show ?thesis by blast
qed

section \<open>The splitter\<close>

text \<open>
  C3. The code selects the sub-cells of unit 0 (\<open>unmerged_HRU_indices == 0\<close>) whatever
  \<open>index\<close> is. On the builder's output for one grid cell with the units 0 and 1, splitting
  unit 1 makes three units, but moves a sub-cell of unit 0 to unit 1 and leaves the new
  unit 2 without any sub-cell.
\<close>

theorem split_HRU_new_unit_without_subcells:
  "split_HRU \<lparr>land_use_type = [0, 1], land_use_ratio = [1 / 2, 1 / 2],
           land_owners = [1, - 1], HRU_to_grid = [0, 0], var_to_HRU = [2],
           var_to_HRU_uncompressed = [2], unmerged_HRU_indices = [0, 0, 1, 1]\<rparr> 1 =
   Inr \<lparr>land_use_type = [0, 1, 1], land_use_ratio = [1 / 2, 1 / 4, 1 / 4],
        land_owners = [1, - 1, - 1], HRU_to_grid = [0, 0, 0],
        var_to_HRU = [3], var_to_HRU_uncompressed = [2],
        unmerged_HRU_indices = [0, 1, 1, 1]\<rparr>"
  by code_simp

lemma length_filter_nth_upt:
  "length (filter (\<lambda>k. um ! k = z) [0..<length um]) = length (filter (\<lambda>u. u = z) um)"
proof -
  have "length (filter (\<lambda>u. u = z) (map ((!) um) [0..<length um])) =
        length (filter ((\<lambda>u. u = z) \<circ> (!) um) [0..<length um])"
    by (rule length_filter_map)
  then show ?thesis
    by (simp add: map_nth comp_def)
qed

lemma split_HRU_data_None_returns:
  "(\<exists>a'. split_HRU_data a i None = Inr a') \<longleftrightarrow> i < length a"
  by (simp add: split_HRU_data_def)

lemma split_HRU_data_Some_returns:
  "0 < t \<Longrightarrow> t < 1 \<Longrightarrow> (\<exists>a'. split_HRU_data a i (Some t) = Inr a') \<longleftrightarrow> i < length a"
  by (simp add: split_HRU_data_def Let_def)

lemma rbind_returns:
  "(\<exists>y. rbind m f = Inr y) \<longleftrightarrow> (\<exists>x. m = Inr x \<and> (\<exists>y. f x = Inr y))"
  by (cases m) (simp_all add: rbind_def)

text \<open>
  When \<open>split_HRU(index)\<close> returns: exactly when unit 0 has at least two sub-cells and
  \<open>index\<close> is a position of the four per-unit arrays. The number of sub-cells of the unit
  \<open>index\<close> itself plays no part.
\<close>

lemma split_HRU_returns:
  "(\<exists>hru'. split_HRU hru index = Inr hru') \<longleftrightarrow>
     2 \<le> length (filter (\<lambda>u. u = 0) (unmerged_HRU_indices hru)) \<and>
     index < length (HRU_to_grid hru) \<and> index < length (land_owners hru) \<and>
     index < length (land_use_type hru) \<and> index < length (land_use_ratio hru)"
proof -
  define um where "um = unmerged_HRU_indices hru"
  define subcell_indices where "subcell_indices = filter (\<lambda>k. um ! k = 0) [0..<length um]"
  define n where "n = length subcell_indices"
  define t where "t = real (n div 2) / real n"
  define finish where "finish = (\<lambda>h2g owners lut ratio.
      hru\<lparr>unmerged_HRU_indices :=
             map (\<lambda>k. if k \<in> set (drop (n div 2) subcell_indices)
                      then map (\<lambda>v. if v > int index then v + 1 else v) um ! k + 1
                      else map (\<lambda>v. if v > int index then v + 1 else v) um ! k)
                 [0..<length (map (\<lambda>v. if v > int index then v + 1 else v) um)],
           HRU_to_grid := h2g,
           var_to_HRU :=
             take (slice_bound (length (var_to_HRU hru)) (h2g ! index)) (var_to_HRU hru) @
             map (\<lambda>e. e + 1)
               (drop (slice_bound (length (var_to_HRU hru)) (h2g ! index)) (var_to_HRU hru)),
           land_owners := owners, land_use_type := lut, land_use_ratio := ratio\<rparr>)"
  have unfolded: "split_HRU hru index =
    (if \<not> (n div 2 > 0 \<and> n div 2 < n) then Inl AssertionError
     else rbind (split_HRU_data (HRU_to_grid hru) index None) (\<lambda>h2g.
          rbind (split_HRU_data (land_owners hru) index None) (\<lambda>owners.
          rbind (split_HRU_data (land_use_type hru) index None) (\<lambda>lut.
          rbind (split_HRU_data (land_use_ratio hru) index (Some t)) (\<lambda>ratio.
          Inr (finish h2g owners lut ratio))))))"
    unfolding split_HRU_def Let_def um_def subcell_indices_def t_def n_def finish_def
    by (rule refl)
  have n: "n = length (filter (\<lambda>u. u = 0) (unmerged_HRU_indices hru))"
    unfolding n_def subcell_indices_def um_def by (rule length_filter_nth_upt)
  show ?thesis
  proof (cases "2 \<le> n")
    case False
    then have "\<not> (n div 2 > 0 \<and> n div 2 < n)"
      by auto
    then have "split_HRU hru index = Inl AssertionError"
      unfolding unfolded by simp
    with False n show ?thesis
      by simp
  next
    case True
    then have half: "n div 2 > 0 \<and> n div 2 < n"
      by auto
    then have t: "0 < t" "t < 1"
      by (simp_all add: t_def)
    have eq: "split_HRU hru index =
          rbind (split_HRU_data (HRU_to_grid hru) index None) (\<lambda>h2g.
          rbind (split_HRU_data (land_owners hru) index None) (\<lambda>owners.
          rbind (split_HRU_data (land_use_type hru) index None) (\<lambda>lut.
          rbind (split_HRU_data (land_use_ratio hru) index (Some t)) (\<lambda>ratio.
          Inr (finish h2g owners lut ratio)))))"
      using half unfolding unfolded by simp
    have "(\<exists>hru'. split_HRU hru index = Inr hru') \<longleftrightarrow>
        (\<exists>a. split_HRU_data (HRU_to_grid hru) index None = Inr a) \<and>
        (\<exists>a. split_HRU_data (land_owners hru) index None = Inr a) \<and>
        (\<exists>a. split_HRU_data (land_use_type hru) index None = Inr a) \<and>
        (\<exists>a. split_HRU_data (land_use_ratio hru) index (Some t) = Inr a)"
      unfolding eq by (simp add: rbind_returns)
    then have "(\<exists>hru'. split_HRU hru index = Inr hru') \<longleftrightarrow>
        index < length (HRU_to_grid hru) \<and> index < length (land_owners hru) \<and>
        index < length (land_use_type hru) \<and> index < length (land_use_ratio hru)"
      by (simp only: split_HRU_data_None_returns split_HRU_data_Some_returns [OF t])
    with True n show ?thesis
      by simp
  qed
qed

text \<open>
  C6. On the builder's output for one grid cell in which unit 0 has one sub-cell and unit 1
  has three, \<open>index = 1\<close> is the position of a unit that can be split. But
  \<open>split_HRU(1)\<close> counts the sub-cells of unit 0, finds \<open>split_loc = 0\<close> and fails its
  assertion: no unit is inserted. The cause is the literal 0 of C3.
\<close>

theorem split_HRU_valid_index_raises:
  "create_HRUs_numba [[1, - 1], [- 1, - 1]] [[0, 1], [1, 1]] [[False]] 2 =
     Inr \<lparr>land_use_type = [0, 1], land_use_ratio = [1 / 4, 3 / 4],
           land_owners = [1, - 1], HRU_to_grid = [0, 0], var_to_HRU = [2],
           var_to_HRU_uncompressed = [2], unmerged_HRU_indices = [0, 1, 1, 1]\<rparr>
   \<and> split_HRU \<lparr>land_use_type = [0, 1], land_use_ratio = [1 / 4, 3 / 4],
           land_owners = [1, - 1], HRU_to_grid = [0, 0], var_to_HRU = [2],
           var_to_HRU_uncompressed = [2], unmerged_HRU_indices = [0, 1, 1, 1]\<rparr> 1 =
     Inl AssertionError"
  by code_simp

lemma split_HRU_data_None:
  "split_HRU_data a i None = Inr a' \<Longrightarrow> i < length a \<and> a' = inserted a i (a ! i) (a ! i)"
  by (auto simp: split_HRU_data_def inserted_def Cons_nth_drop_Suc split: if_splits)

lemma split_HRU_data_Some:
  assumes "split_HRU_data a i (Some t) = Inr a'"
  shows "i < length a \<and> 0 < t \<and> t < 1 \<and> a' = inserted a i (a ! i * t) ((1 - t) * a ! i)"
proof -
  from assms have i: "i < length a" and t: "0 < t" "t < 1"
    by (auto simp: split_HRU_data_def split: if_splits)
  define b where "b = take i a @ [a ! i * t] @ drop i a"
  have bb: "b = (take i a @ [a ! i * t]) @ a ! i # drop (Suc i) a"
    using i by (simp add: b_def Cons_nth_drop_Suc)
  have len: "length (take i a @ [a ! i * t]) = i + 1"
    using i by simp
  have nth: "b ! (i + 1) = a ! i"
    unfolding bb using len by (metis nth_append_length)
  have "b[i + 1 := (1 - t) * a ! i] = (take i a @ [a ! i * t]) @ ((1 - t) * a ! i) # drop (Suc i) a"
    unfolding bb using len by (metis list_update_length)
  then have upd: "b[i + 1 := (1 - t) * a ! i] = inserted a i (a ! i * t) ((1 - t) * a ! i)"
    by (simp add: inserted_def)
  have "split_HRU_data a i (Some t) = Inr (b[i + 1 := (1 - t) * b ! (i + 1)])"
    using i t by (simp add: split_HRU_data_def Let_def b_def)
  then have "a' = inserted a i (a ! i * t) ((1 - t) * a ! i)"
    using assms nth upd by simp
  with i t show ?thesis by simp
qed

lemma length_inserted: "i < length a \<Longrightarrow> length (inserted a i p q) = length a + 1"
  by (simp add: inserted_def)

lemma inserted_nth_before: "k < i \<Longrightarrow> i < length a \<Longrightarrow> inserted a i p q ! k = a ! k"
  by (simp add: inserted_def nth_append)

lemma inserted_nth_at: "i < length a \<Longrightarrow> inserted a i p q ! i = p \<and> inserted a i p q ! (i + 1) = q"
  by (simp add: inserted_def nth_append)

lemma inserted_nth_after:
  "i < k \<Longrightarrow> k < length a \<Longrightarrow> inserted a i p q ! Suc k = a ! k"
  by (simp add: inserted_def nth_append Suc_diff_Suc)

lemma sum_take_inserted_low:
  "m \<le> i \<Longrightarrow> i < length a \<Longrightarrow> sum_list (take m (inserted a i p q)) = sum_list (take m a)"
  by (simp add: inserted_def min_absorb2)

lemma sum_take_inserted_high:
  fixes a :: "real list"
  assumes "i < m" "m \<le> length a" "p + q = a ! i"
  shows "sum_list (take (Suc m) (inserted a i p q)) = sum_list (take m a)"
proof -
  have i: "i < length a" using assms by simp
  obtain d where m: "m = Suc i + d" using assms(1) less_iff_Suc_add by auto
  have "take m a = take i a @ take (Suc d) (drop i a)"
    using m take_add [of i "Suc d" a] by simp
  also have "drop i a = a ! i # drop (Suc i) a"
    using i by (simp add: Cons_nth_drop_Suc)
  finally have "take m a = take i a @ a ! i # take d (drop (Suc i) a)"
    by simp
  moreover have "take (Suc m) (inserted a i p q) = take i a @ [p, q] @ take d (drop (Suc i) a)"
    using i m by (simp add: inserted_def)
  ultimately show ?thesis
    using assms(3) by simp
qed

lemma sum_slice_diff:
  fixes xs :: "real list"
  assumes "a \<le> b"
  shows "sum_list (take (b - a) (drop a xs)) = sum_list (take b xs) - sum_list (take a xs)"
proof -
  have "take b xs = take a xs @ take (b - a) (drop a xs)"
    using assms take_add [of a "b - a" xs] by simp
  then show ?thesis by simp
qed

lemma rbind_Inr: "rbind m f = Inr y \<Longrightarrow> \<exists>x. m = Inr x \<and> f x = Inr y"
  by (cases m) (simp_all add: rbind_def)

lemma split_HRU_result:
  assumes "split_HRU hru index = Inr hru'"
  shows "\<exists>t. 0 < t \<and> t < 1 \<and>
     index < length (land_use_ratio hru) \<and> index < length (land_use_type hru) \<and>
     index < length (HRU_to_grid hru) \<and>
     land_use_ratio hru' =
       inserted (land_use_ratio hru) index (land_use_ratio hru ! index * t)
         ((1 - t) * land_use_ratio hru ! index) \<and>
     land_use_type hru' =
       inserted (land_use_type hru) index (land_use_type hru ! index) (land_use_type hru ! index) \<and>
     HRU_to_grid hru' =
       inserted (HRU_to_grid hru) index (HRU_to_grid hru ! index) (HRU_to_grid hru ! index) \<and>
     var_to_HRU hru' =
       take (slice_bound (length (var_to_HRU hru)) (HRU_to_grid hru ! index)) (var_to_HRU hru) @
       map (\<lambda>e. e + 1)
         (drop (slice_bound (length (var_to_HRU hru)) (HRU_to_grid hru ! index)) (var_to_HRU hru))"
proof -
  define um where "um = unmerged_HRU_indices hru"
  define subcell_indices where "subcell_indices = filter (\<lambda>k. um ! k = 0) [0..<length um]"
  define t where "t = real (length subcell_indices div 2) / real (length subcell_indices)"
  define um2 where "um2 =
    map (\<lambda>k. if k \<in> set (drop (length subcell_indices div 2) subcell_indices)
             then map (\<lambda>v. if v > int index then v + 1 else v) um ! k + 1
             else map (\<lambda>v. if v > int index then v + 1 else v) um ! k)
        [0..<length (map (\<lambda>v. if v > int index then v + 1 else v) um)]"
  have unfolded: "split_HRU hru index =
    (if \<not> (length subcell_indices div 2 > 0 \<and> length subcell_indices div 2 < length subcell_indices)
     then Inl AssertionError
     else rbind (split_HRU_data (HRU_to_grid hru) index None) (\<lambda>h2g.
          rbind (split_HRU_data (land_owners hru) index None) (\<lambda>owners.
          rbind (split_HRU_data (land_use_type hru) index None) (\<lambda>lut.
          rbind (split_HRU_data (land_use_ratio hru) index (Some t)) (\<lambda>ratio.
          Inr (hru\<lparr>unmerged_HRU_indices := um2, HRU_to_grid := h2g,
                   var_to_HRU :=
                     take (slice_bound (length (var_to_HRU hru)) (h2g ! index)) (var_to_HRU hru) @
                     map (\<lambda>e. e + 1)
                       (drop (slice_bound (length (var_to_HRU hru)) (h2g ! index)) (var_to_HRU hru)),
                   land_owners := owners, land_use_type := lut, land_use_ratio := ratio\<rparr>))))))"
    unfolding split_HRU_def Let_def um_def subcell_indices_def t_def um2_def by (rule refl)
  from assms have step0: "rbind (split_HRU_data (HRU_to_grid hru) index None) (\<lambda>h2g.
          rbind (split_HRU_data (land_owners hru) index None) (\<lambda>owners.
          rbind (split_HRU_data (land_use_type hru) index None) (\<lambda>lut.
          rbind (split_HRU_data (land_use_ratio hru) index (Some t)) (\<lambda>ratio.
          Inr (hru\<lparr>unmerged_HRU_indices := um2, HRU_to_grid := h2g,
                   var_to_HRU :=
                     take (slice_bound (length (var_to_HRU hru)) (h2g ! index)) (var_to_HRU hru) @
                     map (\<lambda>e. e + 1)
                       (drop (slice_bound (length (var_to_HRU hru)) (h2g ! index)) (var_to_HRU hru)),
                   land_owners := owners, land_use_type := lut, land_use_ratio := ratio\<rparr>))))) = Inr hru'"
    unfolding unfolded by (simp split: if_splits)
  from rbind_Inr [OF step0] obtain h2g where
    h: "split_HRU_data (HRU_to_grid hru) index None = Inr h2g" and
    step1: "rbind (split_HRU_data (land_owners hru) index None) (\<lambda>owners.
          rbind (split_HRU_data (land_use_type hru) index None) (\<lambda>lut.
          rbind (split_HRU_data (land_use_ratio hru) index (Some t)) (\<lambda>ratio.
          Inr (hru\<lparr>unmerged_HRU_indices := um2, HRU_to_grid := h2g,
                   var_to_HRU :=
                     take (slice_bound (length (var_to_HRU hru)) (h2g ! index)) (var_to_HRU hru) @
                     map (\<lambda>e. e + 1)
                       (drop (slice_bound (length (var_to_HRU hru)) (h2g ! index)) (var_to_HRU hru)),
                   land_owners := owners, land_use_type := lut, land_use_ratio := ratio\<rparr>)))) = Inr hru'"
    by blast
  from rbind_Inr [OF step1] obtain owners where
    step2: "rbind (split_HRU_data (land_use_type hru) index None) (\<lambda>lut.
          rbind (split_HRU_data (land_use_ratio hru) index (Some t)) (\<lambda>ratio.
          Inr (hru\<lparr>unmerged_HRU_indices := um2, HRU_to_grid := h2g,
                   var_to_HRU :=
                     take (slice_bound (length (var_to_HRU hru)) (h2g ! index)) (var_to_HRU hru) @
                     map (\<lambda>e. e + 1)
                       (drop (slice_bound (length (var_to_HRU hru)) (h2g ! index)) (var_to_HRU hru)),
                   land_owners := owners, land_use_type := lut, land_use_ratio := ratio\<rparr>))) = Inr hru'"
    by blast
  from rbind_Inr [OF step2] obtain lut where
    l: "split_HRU_data (land_use_type hru) index None = Inr lut" and
    step3: "rbind (split_HRU_data (land_use_ratio hru) index (Some t)) (\<lambda>ratio.
          Inr (hru\<lparr>unmerged_HRU_indices := um2, HRU_to_grid := h2g,
                   var_to_HRU :=
                     take (slice_bound (length (var_to_HRU hru)) (h2g ! index)) (var_to_HRU hru) @
                     map (\<lambda>e. e + 1)
                       (drop (slice_bound (length (var_to_HRU hru)) (h2g ! index)) (var_to_HRU hru)),
                   land_owners := owners, land_use_type := lut, land_use_ratio := ratio\<rparr>)) = Inr hru'"
    by blast
  from rbind_Inr [OF step3] obtain ratio where
    r: "split_HRU_data (land_use_ratio hru) index (Some t) = Inr ratio" and
    res: "hru' = hru\<lparr>unmerged_HRU_indices := um2, HRU_to_grid := h2g,
                   var_to_HRU :=
                     take (slice_bound (length (var_to_HRU hru)) (h2g ! index)) (var_to_HRU hru) @
                     map (\<lambda>e. e + 1)
                       (drop (slice_bound (length (var_to_HRU hru)) (h2g ! index)) (var_to_HRU hru)),
                   land_owners := owners, land_use_type := lut, land_use_ratio := ratio\<rparr>"
    by auto
  note H = split_HRU_data_None [OF h]
  note L = split_HRU_data_None [OF l]
  note R = split_HRU_data_Some [OF r]
  have "h2g ! index = HRU_to_grid hru ! index"
    using H inserted_nth_at [of index "HRU_to_grid hru"] by simp
  with H L R res show ?thesis
    by (intro exI [of _ t]) simp
qed

lemma sorted_nth_le_last:
  fixes v :: "int list"
  assumes "sorted v" "k < length v"
  shows "v ! k \<le> last v"
proof -
  have "v ! k \<le> v ! (length v - 1)"
    using assms by (intro sorted_nth_mono) auto
  moreover have "last v = v ! (length v - 1)"
    using assms by (intro last_conv_nth) auto
  ultimately show ?thesis by simp
qed

text \<open>
  What a split that returns does to the units. After \<open>split_HRU(index)\<close> has returned on
  index structures that satisfy the invariants: \<open>land_use_ratio\<close>, \<open>land_use_type\<close> and
  \<open>HRU_to_grid\<close> are one entry longer; the sum of \<open>land_use_ratio\<close> over the unit range of every grid cell
  is unchanged; the value of every other unit is unchanged, at its old position before
  \<open>index\<close> and one position later after it; and the positions \<open>index\<close> and \<open>index + 1\<close>
  carry the split pair: both have the land-use type and the grid cell of the old unit,
  and their ratios add up to its ratio. (Ratios are exact reals.)
\<close>

lemma split_HRU_units:
  assumes split: "split_HRU hru index = Inr hru'"
    and inv: "units_in_cells hru"
    and index: "index < length (land_use_ratio hru)"
  shows "length (land_use_ratio hru') = length (land_use_ratio hru) + 1 \<and>
    length (land_use_type hru') = length (land_use_type hru) + 1 \<and>
    length (HRU_to_grid hru') = length (HRU_to_grid hru) + 1 \<and>
    length (var_to_HRU hru') = length (var_to_HRU hru) \<and>
    (\<forall>i < length (var_to_HRU hru). cell_ratio_sum hru' i = cell_ratio_sum hru i) \<and>
    (\<forall>p < index.
       land_use_ratio hru' ! p = land_use_ratio hru ! p \<and>
       land_use_type hru' ! p = land_use_type hru ! p \<and>
       HRU_to_grid hru' ! p = HRU_to_grid hru ! p) \<and>
    (\<forall>p. index < p \<and> p < length (land_use_ratio hru) \<longrightarrow>
       land_use_ratio hru' ! (p + 1) = land_use_ratio hru ! p \<and>
       land_use_type hru' ! (p + 1) = land_use_type hru ! p \<and>
       HRU_to_grid hru' ! (p + 1) = HRU_to_grid hru ! p) \<and>
    land_use_type hru' ! index = land_use_type hru ! index \<and>
    land_use_type hru' ! (index + 1) = land_use_type hru ! index \<and>
    HRU_to_grid hru' ! index = HRU_to_grid hru ! index \<and>
    HRU_to_grid hru' ! (index + 1) = HRU_to_grid hru ! index \<and>
    land_use_ratio hru' ! index + land_use_ratio hru' ! (index + 1) = land_use_ratio hru ! index"
proof -
  define r where "r = land_use_ratio hru"
  define ty where "ty = land_use_type hru"
  define h where "h = HRU_to_grid hru"
  define v where "v = var_to_HRU hru"
  define n where "n = length r"
  define c where "c = nat (h ! index)"
  define shift where "shift = (\<lambda>b::int. if b > int index then b + 1 else b)"
  from split_HRU_result [OF split] obtain t where t: "0 < t" "t < 1"
    and r': "land_use_ratio hru' = inserted r index (r ! index * t) ((1 - t) * r ! index)"
    and ty': "land_use_type hru' = inserted ty index (ty ! index) (ty ! index)"
    and h': "HRU_to_grid hru' = inserted h index (h ! index) (h ! index)"
    and v': "var_to_HRU hru' = take (slice_bound (length v) (h ! index)) v @
               map (\<lambda>e. e + 1) (drop (slice_bound (length v) (h ! index)) v)"
    unfolding r_def ty_def h_def v_def by blast
  from inv have lens: "length h = n" "length ty = n"
    and v: "v \<noteq> []" "sorted (0 # v)" "last v = int n"
    and units: "\<forall>u < n. 0 \<le> h ! u \<and> h ! u < int (length v) \<and>
          cell_start v (nat (h ! u)) \<le> int u \<and> int u < v ! nat (h ! u)"
    unfolding units_in_cells_def Let_def r_def ty_def h_def v_def n_def by auto
  have idx: "index < n"
    using index by (simp add: n_def r_def)
  with units have c: "c < length v" "cell_start v c \<le> int index" "int index < v ! c"
    and hc: "0 \<le> h ! index" "h ! index < int (length v)"
    unfolding c_def by auto
  have a: "slice_bound (length v) (h ! index) = c"
    using hc by (simp add: slice_bound_nonneg c_def)
  have v'': "var_to_HRU hru' = take c v @ map (\<lambda>e. e + 1) (drop c v)"
    using v' a by simp
  have sv: "sorted v" and nonneg: "\<forall>x \<in> set v. 0 \<le> x"
    using v(2) by simp_all
  have v'_nth: "var_to_HRU hru' ! k = shift (v ! k)" if k: "k < length v" for k
  proof (cases "k < c")
    case True
    then have "v ! k \<le> v ! (c - 1)"
      using sv c(1) by (intro sorted_nth_mono) auto
    also have "\<dots> = cell_start v c"
      using True by (simp add: cell_start_def)
    finally have "v ! k \<le> int index"
      using c(2) by simp
    then show ?thesis
      using True c(1) by (simp add: v'' shift_def nth_append)
  next
    case False
    then have "v ! c \<le> v ! k"
      using sv k by (intro sorted_nth_mono) auto
    then have "int index < v ! k"
      using c(3) by simp
    then show ?thesis
      using False k c(1) by (simp add: v'' shift_def nth_append)
  qed
  have start': "cell_start (var_to_HRU hru') k = shift (cell_start v k)" if k: "k < length v" for k
    using k v'_nth [of "k - 1"] by (simp add: cell_start_def shift_def)
  have bounds: "0 \<le> cell_start v k \<and> cell_start v k \<le> v ! k \<and> v ! k \<le> int n"
    if k: "k < length v" for k
  proof -
    have "(0 # v) ! k \<le> (0 # v) ! Suc k"
      using v(2) k by (intro sorted_nth_mono) auto
    moreover have "0 \<le> (0 # v) ! k"
      using nonneg k by (cases k) auto
    moreover have "v ! k \<le> last v"
      using sv k by (rule sorted_nth_le_last)
    ultimately show ?thesis
      using v(3) by (simp add: cell_start_nth)
  qed
  have pq: "r ! index * t + (1 - t) * r ! index = r ! index"
    by (simp add: algebra_simps)
  have prefix: "sum_list (take (nat (shift b)) (land_use_ratio hru')) = sum_list (take (nat b) r)"
    if b: "0 \<le> b" "b \<le> int n" for b
  proof (cases "b > int index")
    case True
    then have "nat (shift b) = Suc (nat b)"
      using b by (simp add: shift_def nat_add_distrib)
    moreover have "index < nat b" "nat b \<le> length r"
      using True b by (simp_all add: n_def)
    ultimately show ?thesis
      using pq by (simp add: r' sum_take_inserted_high)
  next
    case False
    then have "nat (shift b) = nat b" "nat b \<le> index"
      using b by (simp_all add: shift_def)
    then show ?thesis
      using idx by (simp add: r' sum_take_inserted_low n_def)
  qed
  have len_r': "length (land_use_ratio hru') = n + 1"
    using idx by (simp add: r' length_inserted n_def)
  have sums: "cell_ratio_sum hru' k = cell_ratio_sum hru k" if k: "k < length v" for k
  proof -
    let ?lo = "cell_start v k" and ?hi = "v ! k"
    from bounds [OF k] have b: "0 \<le> ?lo" "?lo \<le> ?hi" "?hi \<le> int n"
      by simp_all
    have sb: "0 \<le> shift ?lo" "shift ?lo \<le> shift ?hi" "shift ?hi \<le> int (length (land_use_ratio hru'))"
      using b by (simp_all add: shift_def len_r')
    have le: "nat ?lo \<le> nat ?hi" "nat (shift ?lo) \<le> nat (shift ?hi)"
      using b sb by simp_all
    have "cell_ratio_sum hru' k = sum_list (py_slice (land_use_ratio hru') (shift ?lo) (shift ?hi))"
      using k by (simp add: cell_ratio_sum_def start' v'_nth)
    also have "\<dots> = sum_list (take (nat (shift ?hi)) (land_use_ratio hru'))
                    - sum_list (take (nat (shift ?lo)) (land_use_ratio hru'))"
      using sb le by (simp add: py_slice_nat sum_slice_diff)
    also have "\<dots> = sum_list (take (nat ?hi) r) - sum_list (take (nat ?lo) r)"
      using b by (simp add: prefix)
    also have "\<dots> = sum_list (py_slice r ?lo ?hi)"
      using b le by (simp add: py_slice_nat sum_slice_diff n_def)
    also have "\<dots> = cell_ratio_sum hru k"
      by (simp add: cell_ratio_sum_def r_def v_def)
    finally show ?thesis .
  qed
  have idx_ty: "index < length ty" and idx_h: "index < length h" and idx_r: "index < length r"
    using idx lens by (simp_all add: n_def)
  have 1: "length (land_use_ratio hru') = length (land_use_ratio hru) + 1"
    using len_r' by (simp add: n_def r_def)
  have 2: "length (land_use_type hru') = length (land_use_type hru) + 1"
    using idx_ty by (simp add: ty' length_inserted) (simp add: ty_def)
  have 3: "length (HRU_to_grid hru') = length (HRU_to_grid hru) + 1"
    using idx_h by (simp add: h' length_inserted) (simp add: h_def)
  have 4: "length (var_to_HRU hru') = length (var_to_HRU hru)"
    using c(1) by (simp add: v'') (simp add: v_def)
  have 5: "\<forall>i < length (var_to_HRU hru). cell_ratio_sum hru' i = cell_ratio_sum hru i"
    using sums by (simp add: v_def)
  have 6: "\<forall>p < index.
       land_use_ratio hru' ! p = land_use_ratio hru ! p \<and>
       land_use_type hru' ! p = land_use_type hru ! p \<and>
       HRU_to_grid hru' ! p = HRU_to_grid hru ! p"
    using idx_ty idx_h idx_r
    by (simp add: r' ty' h' inserted_nth_before) (simp add: r_def ty_def h_def)
  have 7: "\<forall>p. index < p \<and> p < length (land_use_ratio hru) \<longrightarrow>
       land_use_ratio hru' ! (p + 1) = land_use_ratio hru ! p \<and>
       land_use_type hru' ! (p + 1) = land_use_type hru ! p \<and>
       HRU_to_grid hru' ! (p + 1) = HRU_to_grid hru ! p"
  proof (intro allI impI)
    fix p assume p: "index < p \<and> p < length (land_use_ratio hru)"
    then have "p < length r" "p < length ty" "p < length h"
      using lens by (simp_all add: r_def n_def)
    moreover have "index < p" using p by simp
    ultimately show "land_use_ratio hru' ! (p + 1) = land_use_ratio hru ! p \<and>
       land_use_type hru' ! (p + 1) = land_use_type hru ! p \<and>
       HRU_to_grid hru' ! (p + 1) = HRU_to_grid hru ! p"
      unfolding r' ty' h' by (simp add: inserted_nth_after) (simp add: r_def ty_def h_def)
  qed
  have 8: "land_use_type hru' ! index = land_use_type hru ! index \<and>
    land_use_type hru' ! (index + 1) = land_use_type hru ! index"
    using inserted_nth_at [OF idx_ty] by (simp add: ty') (simp add: ty_def)
  have 9: "HRU_to_grid hru' ! index = HRU_to_grid hru ! index \<and>
    HRU_to_grid hru' ! (index + 1) = HRU_to_grid hru ! index"
    using inserted_nth_at [OF idx_h] by (simp add: h') (simp add: h_def)
  have 10: "land_use_ratio hru' ! index + land_use_ratio hru' ! (index + 1) = land_use_ratio hru ! index"
    using inserted_nth_at [OF idx_r] pq by (simp add: r') (simp add: r_def)
  from 1 2 3 4 5 6 7 8 9 10 show ?thesis
    by blast
qed

lemma split_HRU_units_example:
  "split_HRU \<lparr>land_use_type = [0, 0, 0], land_use_ratio = [1, 1, 1],
       land_owners = [- 1, - 1, - 1], HRU_to_grid = [0, 1, 2],
       var_to_HRU = [1, 2, 3], var_to_HRU_uncompressed = [1, 2, 3, 3],
       unmerged_HRU_indices = [0, 0, 0, 0, 1, 1, 1, 1, 2, 2, 2, 2]\<rparr> 1 =
   Inr \<lparr>land_use_type = [0, 0, 0, 0], land_use_ratio = [1, 1 / 2, 1 / 2, 1],
       land_owners = [- 1, - 1, - 1, - 1], HRU_to_grid = [0, 1, 1, 2],
       var_to_HRU = [1, 3, 4], var_to_HRU_uncompressed = [1, 2, 3, 3],
       unmerged_HRU_indices = [0, 0, 1, 1, 1, 1, 1, 1, 3, 3, 3, 3]\<rparr> \<and>
   units_in_cells \<lparr>land_use_type = [0, 0, 0], land_use_ratio = [1, 1, 1],
       land_owners = [- 1, - 1, - 1], HRU_to_grid = [0, 1, 2],
       var_to_HRU = [1, 2, 3], var_to_HRU_uncompressed = [1, 2, 3, 3],
       unmerged_HRU_indices = [0, 0, 0, 0, 1, 1, 1, 1, 2, 2, 2, 2]\<rparr> \<and>
   (1::nat) < length [1, 1, 1 :: real] \<and>
   cell_ratio_sum \<lparr>land_use_type = [0, 0, 0, 0], land_use_ratio = [1, 1 / 2, 1 / 2, 1],
       land_owners = [- 1, - 1, - 1, - 1], HRU_to_grid = [0, 1, 1, 2],
       var_to_HRU = [1, 3, 4], var_to_HRU_uncompressed = [1, 2, 3, 3],
       unmerged_HRU_indices = [0, 0, 1, 1, 1, 1, 1, 1, 3, 3, 3, 3]\<rparr> 1 =
   cell_ratio_sum \<lparr>land_use_type = [0, 0, 0], land_use_ratio = [1, 1, 1],
       land_owners = [- 1, - 1, - 1], HRU_to_grid = [0, 1, 2],
       var_to_HRU = [1, 2, 3], var_to_HRU_uncompressed = [1, 2, 3, 3],
       unmerged_HRU_indices = [0, 0, 0, 0, 1, 1, 1, 1, 2, 2, 2, 2]\<rparr> 1"
  (is "split_HRU ?h 1 = Inr ?h' \<and> _ \<and> _ \<and> _")
proof -
  have 1: "split_HRU ?h 1 = Inr ?h'" by code_simp
  have 2: "units_in_cells ?h" by code_simp
  have 3: "1 < length (land_use_ratio ?h)" by simp
  have "(1::nat) < length (var_to_HRU ?h)" by simp
  with split_HRU_units [OF 1 2 3] have "cell_ratio_sum ?h' 1 = cell_ratio_sum ?h 1"
    by blast
  with 1 2 show ?thesis by simp
qed

end
